theory Spec2Isabelle
  imports Main "HOL-Library.Sublist"
begin

section \<open>Strings of the Go standard library\<close>

text \<open>
  A Go string is a sequence of bytes; \<open>string\<close> (a list of 8-bit characters) models
  it, \<open>length\<close> is Go's \<open>len\<close>. The functions of package \<open>strings\<close> that the
  repository calls are modelled after their documented behaviour. Every separator the
  repository passes (\<open>"\n"\<close>, \<open>"="\<close>, \<open>"#"\<close>, \<open>string(quote)\<close> for a quote byte) is
  a one-byte string, so \<open>Split\<close> and \<open>Cut\<close> take the separator as one character.
\<close>

definition dquote :: char where
  "dquote = CHR 0x22"

definition squote :: char where
  "squote = CHR 0x27"

definition newline :: char where
  "newline = CHR 0x0A"

text \<open>\<open>strings.HasPrefix(s, prefix)\<close> and \<open>strings.TrimPrefix(s, prefix)\<close>.\<close>

definition HasPrefix :: "string \<Rightarrow> string \<Rightarrow> bool" where
  "HasPrefix s p = prefix p s"

definition TrimPrefix :: "string \<Rightarrow> string \<Rightarrow> string" where
  "TrimPrefix s p = (if HasPrefix s p then drop (length p) s else s)"

text \<open>
  \<open>strings.Cut(s, sep)\<close>: the text before and after the first \<open>sep\<close> and whether it
  was found; without \<open>sep\<close> the result is \<open>(s, "", false)\<close>.
\<close>

fun Cut :: "string \<Rightarrow> char \<Rightarrow> string \<times> string \<times> bool" where
  "Cut [] sep = ([], [], False)"
| "Cut (c # cs) sep =
     (if c = sep then ([], cs, True)
      else (case Cut cs sep of
              (before, after, True) \<Rightarrow> (c # before, after, True)
            | (before, after, False) \<Rightarrow> (c # cs, [], False)))"

text \<open>
  \<open>strings.Split(s, sep)\<close>: the pieces of \<open>s\<close> between the occurrences of \<open>sep\<close>;
  one piece more than there are separators, so a string without \<open>sep\<close> gives \<open>[s]\<close>.
  A character that is no separator goes to the front of the first piece of the rest
  (the pieces of the rest are never none, so the case \<open>[]\<close> does not occur).
\<close>

fun Split :: "string \<Rightarrow> char \<Rightarrow> string list" where
  "Split [] sep = [[]]"
| "Split (c # cs) sep =
     (if c = sep then [] # Split cs sep
      else (case Split cs sep of
              [] \<Rightarrow> [[c]]
            | piece # pieces \<Rightarrow> (c # piece) # pieces))"

text \<open>
  \<open>strings.TrimSpace(s)\<close> removes the leading and the trailing white space runes, as
  \<open>unicode.IsSpace\<close> defines them. \<open>space_runes\<close> lists the UTF-8 encodings of these
  runes: the six ASCII ones, U+0085, U+00A0, U+1680, U+2000 to U+200A, U+2028, U+2029,
  U+202F, U+205F and U+3000. A string starts with a white space rune exactly when one
  of the encodings is a prefix of it, and ends with one exactly when one is a suffix
  (invalid UTF-8 decodes to U+FFFD, which is no space).
\<close>

definition space_runes :: "string list" where
  "space_runes =
     [[CHR 0x09], [CHR 0x0A], [CHR 0x0B], [CHR 0x0C], [CHR 0x0D], [CHR 0x20],
      [CHR 0xC2, CHR 0x85], [CHR 0xC2, CHR 0xA0],
      [CHR 0xE1, CHR 0x9A, CHR 0x80],
      [CHR 0xE2, CHR 0x80, CHR 0x80], [CHR 0xE2, CHR 0x80, CHR 0x81],
      [CHR 0xE2, CHR 0x80, CHR 0x82], [CHR 0xE2, CHR 0x80, CHR 0x83],
      [CHR 0xE2, CHR 0x80, CHR 0x84], [CHR 0xE2, CHR 0x80, CHR 0x85],
      [CHR 0xE2, CHR 0x80, CHR 0x86], [CHR 0xE2, CHR 0x80, CHR 0x87],
      [CHR 0xE2, CHR 0x80, CHR 0x88], [CHR 0xE2, CHR 0x80, CHR 0x89],
      [CHR 0xE2, CHR 0x80, CHR 0x8A],
      [CHR 0xE2, CHR 0x80, CHR 0xA8], [CHR 0xE2, CHR 0x80, CHR 0xA9],
      [CHR 0xE2, CHR 0x80, CHR 0xAF],
      [CHR 0xE2, CHR 0x81, CHR 0x9F],
      [CHR 0xE3, CHR 0x80, CHR 0x80]]"

text \<open>
  \<open>trim_runes encs s\<close> drops from the front of \<open>s\<close> every leading occurrence of one of
  the byte sequences \<open>encs\<close> (none of which is empty).
\<close>

fun trim_runes :: "string list \<Rightarrow> string \<Rightarrow> string" where
  "trim_runes encs [] = []"
| "trim_runes encs (c # cs) =
     (case find (\<lambda>e. prefix e (c # cs)) encs of
        None \<Rightarrow> c # cs
      | Some e \<Rightarrow> trim_runes encs (drop (length e - 1) cs))"

definition TrimSpace :: "string \<Rightarrow> string" where
  "TrimSpace s =
     rev (trim_runes (map rev space_runes) (rev (trim_runes space_runes s)))"

section \<open>The value normalizer\<close>

text \<open>
  \<open>quotes\<close> (the same text in both files that declare it):
  \<^verbatim>\<open>
  func quotes(value string) string {
      if len(value) == 0 { return "" }
      quote := value[0]
      if quote == '"' || quote == '\'' {
          content, _, found := strings.Cut(value[1:], string(quote))
          if found { return content }
          value = value[1:]
      }
      value, _, _ = strings.Cut(value, "#")
      return strings.TrimSpace(value)
  }
  \<close>
\<close>

fun quotes :: "string \<Rightarrow> string" where
  "quotes [] = []"
| "quotes (quote # rest) =
     (if quote = dquote \<or> quote = squote then
        (case Cut rest quote of
           (content, _, True) \<Rightarrow> content
         | (_, _, False) \<Rightarrow> TrimSpace (fst (Cut rest (CHR ''#''))))
      else TrimSpace (fst (Cut (quote # rest) (CHR ''#''))))"

section \<open>Package strconv\<close>

datatype strconv_error = ErrSyntax | ErrRange

text \<open>
  Go error values: \<open>ErrorString\<close> is an error made by \<open>errors.New\<close> or by
  \<open>fmt.Errorf\<close> without \<open>%w\<close>; \<open>NumError func num err\<close> is a \<open>*strconv.NumError\<close>;
  \<open>ErrSettingField name err\<close> is \<open>fmt.Errorf("error setting field %s: %w", name, err)\<close>.
\<close>

datatype error =
    ErrorString string
  | NumError string string strconv_error
  | ErrSettingField string error

text \<open>
  \<open>strconv.ParseBool(str)\<close> is a switch over twelve literals:
  \<^verbatim>\<open>
  switch str {
  case "1", "t", "T", "TRUE", "true", "True":  return true, nil
  case "0", "f", "F", "FALSE", "false", "False": return false, nil
  }
  return false, syntaxError("ParseBool", str)
  \<close>
\<close>

definition ParseBool :: "string \<Rightarrow> error + bool" where
  "ParseBool str =
     (if str \<in> set [''1'', ''t'', ''T'', ''TRUE'', ''true'', ''True''] then Inr True
      else if str \<in> set [''0'', ''f'', ''F'', ''FALSE'', ''false'', ''False''] then Inr False
      else Inl (NumError ''ParseBool'' str ErrSyntax))"

definition is_digit :: "char \<Rightarrow> bool" where
  "is_digit c \<longleftrightarrow> 48 \<le> (of_char c :: nat) \<and> (of_char c :: nat) \<le> 57"

definition digit_val :: "char \<Rightarrow> nat" where
  "digit_val c = of_char c - 48"

definition digit_char :: "nat \<Rightarrow> char" where
  "digit_char d = ''0123456789'' ! d"

definition maxUint64 :: nat where
  "maxUint64 = 18446744073709551615"

text \<open>
  \<open>strconv.ParseUint(s, 10, 64)\<close>. Its loop reads one byte at a time: a byte that is
  no decimal digit is a syntax error; \<open>n >= cutoff\<close> (with \<open>cutoff = maxUint64/10 + 1\<close>)
  means that \<open>n * 10\<close> overflows, and \<open>n1 < n\<close> after \<open>n1 := n*10 + d\<close> that the addition
  wrapped around, which on \<open>nat\<close> is \<open>n * 10 + d > maxUint64\<close>; both are range errors.
\<close>

fun ParseUint_loop :: "nat \<Rightarrow> string \<Rightarrow> strconv_error + nat" where
  "ParseUint_loop n [] = Inr n"
| "ParseUint_loop n (c # cs) =
     (if \<not> is_digit c then Inl ErrSyntax
      else if n \<ge> maxUint64 div 10 + 1 then Inl ErrRange
      else if n * 10 + digit_val c > maxUint64 then Inl ErrRange
      else ParseUint_loop (n * 10 + digit_val c) cs)"

definition ParseUint :: "string \<Rightarrow> strconv_error + nat" where
  "ParseUint s = (if s = [] then Inl ErrSyntax else ParseUint_loop 0 s)"

text \<open>
  \<open>strconv.ParseInt(s, 10, 64)\<close>: an optional sign, then \<open>ParseUint\<close>; a syntax error
  is returned at once; on a range error of \<open>ParseUint\<close> the value is \<open>maxUint64\<close>, which
  the check against \<open>cutoff = 1 << 63\<close> turns into a range error of \<open>ParseInt\<close>.
\<close>

definition ParseInt :: "string \<Rightarrow> error + int" where
  "ParseInt s0 =
     (if s0 = [] then Inl (NumError ''ParseInt'' s0 ErrSyntax)
      else
        let neg = (hd s0 = CHR ''-'');
            s = (if hd s0 = CHR ''+'' \<or> hd s0 = CHR ''-'' then tl s0 else s0)
        in case ParseUint s of
             Inl ErrSyntax \<Rightarrow> Inl (NumError ''ParseInt'' s0 ErrSyntax)
           | Inl ErrRange \<Rightarrow> Inl (NumError ''ParseInt'' s0 ErrRange)
           | Inr un \<Rightarrow>
               if \<not> neg \<and> un \<ge> 2 ^ 63 then Inl (NumError ''ParseInt'' s0 ErrRange)
               else if neg \<and> un > 2 ^ 63 then Inl (NumError ''ParseInt'' s0 ErrRange)
               else Inr (if neg then - int un else int un))"

text \<open>The decimal text of an integer, as \<open>%v\<close> prints it (\<open>strconv.FormatInt(i, 10)\<close>).\<close>

fun digits10 :: "nat \<Rightarrow> string" where
  "digits10 n =
     (if n < 10 then [digit_char n] else digits10 (n div 10) @ [digit_char (n mod 10)])"

declare digits10.simps [simp del]

definition FormatInt :: "int \<Rightarrow> string" where
  "FormatInt i = (if i < 0 then CHR ''-'' # digits10 (nat (- i)) else digits10 (nat i))"

definition FormatBool :: "bool \<Rightarrow> string" where
  "FormatBool b = (if b then ''true'' else ''false'')"

section \<open>Struct values as package reflect shows them\<close>

text \<open>
  The kinds \<open>setField\<close> tells apart. \<open>KInt\<close> is Go's \<open>int\<close>, 64 bits wide on the
  64-bit platforms (amd64, arm64).
\<close>

datatype int_kind = KInt | KInt8 | KInt16 | KInt32 | KInt64

datatype float_kind = KFloat32 | KFloat64

fun bits :: "int_kind \<Rightarrow> nat" where
  "bits KInt = 64"
| "bits KInt8 = 8"
| "bits KInt16 = 16"
| "bits KInt32 = 32"
| "bits KInt64 = 64"

text \<open>
  The value of a struct field, by kind. Floating point numbers are values of a type
  \<open>'f\<close> that is left open; a field of any other kind (unsigned integers, slices,
  structs, ...) is \<open>VOther kind text\<close>, with the name of its kind and the text
  \<open>%v\<close> prints for it.
\<close>

datatype 'f fval =
    VString string
  | VBool bool
  | VInt int_kind int
  | VFloat float_kind 'f
  | VOther string string

text \<open>
  The floating point operations the code calls: \<open>strconv.ParseFloat(s, 64)\<close>, the
  conversion \<open>float32(x)\<close> that \<open>SetFloat\<close> applies on a \<open>float32\<close> field, and the
  text \<open>%v\<close> prints. They are parameters of the model.
\<close>

record 'f float_ops =
  ParseFloat :: "string \<Rightarrow> error + 'f"
  float32 :: "'f \<Rightarrow> 'f"
  FormatFloat :: "float_kind \<Rightarrow> 'f \<Rightarrow> string"

text \<open>
  A value of a \<open>w\<close>-bit signed integer type holds \<open>- 2 ^ (w - 1) \<le> i < 2 ^ (w - 1)\<close>.
  \<open>reflect.Value.SetInt(x)\<close> stores \<open>int8(x)\<close>, \<open>int16(x)\<close>, ... according to the
  kind: the low \<open>w\<close> bits of \<open>x\<close>, read as two's complement.
\<close>

definition in_range :: "nat \<Rightarrow> int \<Rightarrow> bool" where
  "in_range w i \<longleftrightarrow> - (2 ^ (w - 1)) \<le> i \<and> i < 2 ^ (w - 1)"

definition truncate_int :: "nat \<Rightarrow> int \<Rightarrow> int" where
  "truncate_int w x = (x + 2 ^ (w - 1)) mod 2 ^ w - 2 ^ (w - 1)"

text \<open>
  A struct field: its name, the value of the key \<open>env\<close> in its tag (\<open>None\<close> when the
  tag has no such key), whether the field is exported, its value, and the method that
  \<open>%v\<close> prints a value of its type with. A predeclared type (\<open>string\<close>, \<open>bool\<close>,
  \<open>int8\<close>, ...) has none (\<open>None\<close>); for a named type with a \<open>Format\<close>, \<open>Error\<close> or
  \<open>String\<close> method in its method set, \<open>fmt\<close> calls that method, here a function from
  the value to the text (\<open>time.Duration\<close>, of kind \<open>int64\<close>, prints \<open>1.5s\<close>).
\<close>

record 'f field =
  Name :: string
  env_tag :: "string option"
  exported :: bool
  val :: "'f fval"
  stringer :: "('f fval \<Rightarrow> string) option"

text \<open>\<open>fieldType.Tag.Get("env")\<close>: the empty string when the tag has no key \<open>env\<close>.\<close>

definition Tag_Get :: "'f field \<Rightarrow> string" where
  "Tag_Get f = (case env_tag f of None \<Rightarrow> [] | Some key \<Rightarrow> key)"

text \<open>
  What \<open>reflect.ValueOf(dest)\<close> can be: a struct, a pointer (\<open>Ptr None\<close> is the nil
  pointer) or a value of another kind (the nil interface included).
\<close>

datatype 'f gvalue = Struct "'f field list" | Ptr "'f gvalue option" | Other

section \<open>The Environment Store\<close>

type_synonym environ = "string \<Rightarrow> string option"

text \<open>\<open>os.Getenv(key)\<close>: the value of the variable, empty when it is not set.\<close>

definition Getenv :: "environ \<Rightarrow> string \<Rightarrow> string" where
  "Getenv env key = (if key = [] then [] else case env key of None \<Rightarrow> [] | Some v \<Rightarrow> v)"

text \<open>
  \<open>os.Setenv(key, value)\<close> fails with \<open>EINVAL\<close>, and sets nothing, when the key is
  empty or holds \<open>=\<close> or a NUL byte, or the value holds a NUL byte.
\<close>

definition Setenv :: "environ \<Rightarrow> string \<Rightarrow> string \<Rightarrow> error option \<times> environ" where
  "Setenv env key v =
     (if key = [] \<or> CHR ''='' \<in> set key \<or> CHR 0x00 \<in> set key \<or> CHR 0x00 \<in> set v
      then (Some (ErrorString ''setenv: invalid argument''), env)
      else (None, env(key \<mapsto> v)))"

section \<open>The file collector\<close>

text \<open>
  The body of the inner loop of \<open>Collect\<close> in \<open>src/unnamed/part_001\<close>, up to the call
  of \<open>os.Setenv\<close>: the result is the pair \<open>(key, value)\<close> that \<open>os.Setenv\<close> is called
  with, or \<open>None\<close> when the line is left by \<open>continue\<close>.
  \<^verbatim>\<open>
  if strings.HasPrefix(line, "export ") {
      line = strings.TrimPrefix(line, "export")
      line = strings.TrimSpace(line)
  }
  if line == "" || strings.HasPrefix(line, "#") { continue }
  key, value, found := strings.Cut(line, "=")
  if !found { continue }
  value = quotes(value)
  os.Setenv(key, value)
  \<close>
\<close>

definition strip_export :: "string \<Rightarrow> string" where
  "strip_export line =
     (if HasPrefix line ''export '' then TrimSpace (TrimPrefix line ''export'') else line)"

definition Collect_line_part_001 :: "string \<Rightarrow> (string \<times> string) option" where
  "Collect_line_part_001 line0 =
     (let line = strip_export line0 in
      if line = [] \<or> HasPrefix line ''#'' then None
      else case Cut line (CHR ''='') of
             (key, v, True) \<Rightarrow> Some (key, quotes v)
           | (key, v, False) \<Rightarrow> None)"

text \<open>
  The same loop body in \<open>src/dotenv.go\<close>; its test for a comment is
  \<^verbatim>\<open>if line == "" || strings.HasPrefix("#", line) { continue }\<close>
\<close>

definition Collect_line_dotenv_go :: "string \<Rightarrow> (string \<times> string) option" where
  "Collect_line_dotenv_go line0 =
     (let line = strip_export line0 in
      if line = [] \<or> HasPrefix ''#'' line then None
      else case Cut line (CHR ''='') of
             (key, v, True) \<Rightarrow> Some (key, quotes v)
           | (key, v, False) \<Rightarrow> None)"

text \<open>
  \<open>Collect\<close>, for either loop body \<open>body\<close>. The global \<open>FilenameVariables\<close> and the
  file system (\<open>ReadFile name\<close> is the content of the file, \<open>None\<close> when
  \<open>os.ReadFile\<close> fails) are parameters; the environment is passed through. The error
  of \<open>os.Setenv\<close> is dropped, as in the source.
\<close>

definition Collect_step :: "(string \<Rightarrow> (string \<times> string) option) \<Rightarrow> environ \<Rightarrow> string \<Rightarrow> environ" where
  "Collect_step body env line =
     (case body line of None \<Rightarrow> env | Some (key, v) \<Rightarrow> snd (Setenv env key v))"

definition Collect_file :: "(string \<Rightarrow> (string \<times> string) option) \<Rightarrow> environ \<Rightarrow> string \<Rightarrow> environ" where
  "Collect_file body env content =
     (if length content \<le> 1 then env
      else foldl (Collect_step body) env (Split content newline))"

definition Collect_files ::
  "(string \<Rightarrow> (string \<times> string) option) \<Rightarrow> string list \<Rightarrow> (string \<Rightarrow> string option) \<Rightarrow> environ \<Rightarrow> environ" where
  "Collect_files body FilenameVariables ReadFile env =
     foldl (\<lambda>env filename.
              case ReadFile filename of
                None \<Rightarrow> env
              | Some content \<Rightarrow> Collect_file body env content)
       env FilenameVariables"

definition Collect_part_001 :: "string list \<Rightarrow> (string \<Rightarrow> string option) \<Rightarrow> environ \<Rightarrow> environ" where
  "Collect_part_001 = Collect_files Collect_line_part_001"

definition Collect_dotenv_go :: "string list \<Rightarrow> (string \<Rightarrow> string option) \<Rightarrow> environ \<Rightarrow> environ" where
  "Collect_dotenv_go = Collect_files Collect_line_dotenv_go"

text \<open>
  The calls of \<open>os.Setenv\<close> that \<open>Collect\<close> makes, in order, each with its key and
  value: the Environment Store writes of one run.
\<close>

definition Setenv_calls ::
  "(string \<Rightarrow> (string \<times> string) option) \<Rightarrow> string list \<Rightarrow> (string \<Rightarrow> string option) \<Rightarrow> (string \<times> string) list" where
  "Setenv_calls body FilenameVariables ReadFile =
     concat (map (\<lambda>filename.
                    case ReadFile filename of
                      None \<Rightarrow> []
                    | Some content \<Rightarrow>
                        if length content \<le> 1 then []
                        else List.map_filter body (Split content newline))
                 FilenameVariables)"

section \<open>The struct mapper\<close>

text \<open>
  \<open>setField\<close> of \<open>src/unnamed/part_003\<close>. The result is the new value of the field,
  or the error; on an error the field is not assigned.
  \<^verbatim>\<open>
  switch field.Kind() {
  case reflect.String:
      field.SetString(value)
  case reflect.Bool:
      b, err := strconv.ParseBool(value)
      if err != nil { return err }
      field.SetBool(b)
  case reflect.Int, reflect.Int8, reflect.Int16, reflect.Int32, reflect.Int64:
      i, err := strconv.ParseInt(value, 10, 64)
      if err != nil { return err }
      field.SetInt(i)
  case reflect.Float32, reflect.Float64:
      f, err := strconv.ParseFloat(value, 64)
      if err != nil { return err }
      field.SetFloat(f)
  default:
      return fmt.Errorf("unsupported type: %s", field.Kind())
  }
  return nil
  \<close>
\<close>

fun setField :: "'f float_ops \<Rightarrow> 'f fval \<Rightarrow> string \<Rightarrow> error + 'f fval" where
  "setField fl (VString _) v = Inr (VString v)"
| "setField fl (VBool _) v =
     (case ParseBool v of Inl err \<Rightarrow> Inl err | Inr b \<Rightarrow> Inr (VBool b))"
| "setField fl (VInt k _) v =
     (case ParseInt v of
        Inl err \<Rightarrow> Inl err
      | Inr i \<Rightarrow> Inr (VInt k (truncate_int (bits k) i)))"
| "setField fl (VFloat k _) v =
     (case ParseFloat fl v of
        Inl err \<Rightarrow> Inl err
      | Inr x \<Rightarrow> Inr (VFloat k (case k of KFloat32 \<Rightarrow> float32 fl x | KFloat64 \<Rightarrow> x)))"
| "setField fl (VOther kind _) v = Inl (ErrorString (''unsupported type: '' @ kind))"

text \<open>
  The loop of \<open>Unmarshal\<close> over the fields of the struct \<open>dest\<close> points to. The struct
  is changed in place, so the result is the error (\<open>None\<close> for \<open>nil\<close>) together with
  the fields as the call leaves them. \<open>field.CanSet()\<close> holds for the exported fields
  of a struct reached through a pointer.
  \<^verbatim>\<open>
  if !field.CanSet() { continue }
  key := fieldType.Tag.Get("env")
  if key == "" { continue }
  value := os.Getenv(key)
  if value == "" { continue }
  if err := setField(field, value); err != nil {
      return fmt.Errorf("error setting field %s: %w", fieldType.Name, err)
  }
  \<close>
\<close>

fun Unmarshal_fields ::
  "'f float_ops \<Rightarrow> environ \<Rightarrow> 'f field list \<Rightarrow> error option \<times> 'f field list" where
  "Unmarshal_fields fl env [] = (None, [])"
| "Unmarshal_fields fl env (f # fs) =
     (if \<not> exported f then
        (case Unmarshal_fields fl env fs of (r, fs') \<Rightarrow> (r, f # fs'))
      else if Tag_Get f = [] then
        (case Unmarshal_fields fl env fs of (r, fs') \<Rightarrow> (r, f # fs'))
      else if Getenv env (Tag_Get f) = [] then
        (case Unmarshal_fields fl env fs of (r, fs') \<Rightarrow> (r, f # fs'))
      else
        (case setField fl (val f) (Getenv env (Tag_Get f)) of
           Inl err \<Rightarrow> (Some (ErrSettingField (Name f) err), f # fs)
         | Inr v \<Rightarrow>
             (case Unmarshal_fields fl env fs of (r, fs') \<Rightarrow> (r, f\<lparr>val := v\<rparr> # fs'))))"

definition Unmarshal :: "'f float_ops \<Rightarrow> environ \<Rightarrow> 'f gvalue \<Rightarrow> error option \<times> 'f gvalue" where
  "Unmarshal fl env dest =
     (case dest of
        Ptr None \<Rightarrow> (Some (ErrorString ''dest must be a non-nil pointer''), dest)
      | Ptr (Some (Struct fs)) \<Rightarrow>
          (case Unmarshal_fields fl env fs of (r, fs') \<Rightarrow> (r, Ptr (Some (Struct fs'))))
      | Ptr (Some _) \<Rightarrow> (Some (ErrorString ''dest must be a pointer to a struct''), dest)
      | _ \<Rightarrow> (Some (ErrorString ''dest must be a non-nil pointer''), dest))"

text \<open>
  \<open>Marshal\<close>. \<open>fmt.Sprintf("%v", field.Interface())\<close> panics on a field that is not
  exported (\<open>reflect.Value.Interface\<close> refuses it), so the result of the loop is the
  text built, or a panic.
  \<^verbatim>\<open>
  key := fieldType.Tag.Get("env")
  if key == "" { continue }
  value := fmt.Sprintf("%v", field.Interface())
  if strings.Contains(value, " ") { value = fmt.Sprintf(`"%s"`, value) }
  builder.WriteString(fmt.Sprintf("%s=%s\n", key, value))
  \<close>
\<close>

datatype 'a result = Ok 'a | Err error | Panic string

text \<open>
  \<open>Sprintf_v\<close> is what \<open>%v\<close> prints for a value whose type has no method of its own,
  by kind; \<open>Sprintf_field\<close> is \<open>fmt.Sprintf("%v", field.Interface())\<close>, which calls the
  method of the type when there is one.
\<close>

fun Sprintf_v :: "'f float_ops \<Rightarrow> 'f fval \<Rightarrow> string" where
  "Sprintf_v fl (VString s) = s"
| "Sprintf_v fl (VBool b) = FormatBool b"
| "Sprintf_v fl (VInt k i) = FormatInt i"
| "Sprintf_v fl (VFloat k x) = FormatFloat fl k x"
| "Sprintf_v fl (VOther kind text) = text"

definition Sprintf_field :: "'f float_ops \<Rightarrow> 'f field \<Rightarrow> string" where
  "Sprintf_field fl f =
     (case stringer f of None \<Rightarrow> Sprintf_v fl (val f) | Some print \<Rightarrow> print (val f))"

definition Marshal_value :: "string \<Rightarrow> string" where
  "Marshal_value v = (if CHR '' '' \<in> set v then dquote # v @ [dquote] else v)"

definition Marshal_line :: "'f float_ops \<Rightarrow> 'f field \<Rightarrow> string" where
  "Marshal_line fl f = Tag_Get f @ ''='' @ Marshal_value (Sprintf_field fl f) @ [newline]"

fun Marshal_fields :: "'f float_ops \<Rightarrow> 'f field list \<Rightarrow> string result" where
  "Marshal_fields fl [] = Ok []"
| "Marshal_fields fl (f # fs) =
     (if Tag_Get f = [] then Marshal_fields fl fs
      else if \<not> exported f then
        Panic ''reflect.Value.Interface: cannot return value obtained from unexported field or method''
      else
        (case Marshal_fields fl fs of
           Ok out \<Rightarrow> Ok (Marshal_line fl f @ out)
         | other \<Rightarrow> other))"

definition Marshal :: "'f float_ops \<Rightarrow> 'f gvalue \<Rightarrow> string result" where
  "Marshal fl dest =
     (let rv = (case dest of Ptr (Some v) \<Rightarrow> v | Ptr None \<Rightarrow> Other | v \<Rightarrow> v) in
      case rv of
        Struct fs \<Rightarrow> Marshal_fields fl fs
      | _ \<Rightarrow> Err (ErrorString ''dest must be a struct or a pointer to a struct''))"

section \<open>The conditions of the round trip\<close>

text \<open>
  The round trip writes a struct with \<open>Marshal\<close>, reads the text with \<open>Collect\<close> and
  fills a fresh struct of the same type with \<open>Unmarshal\<close>. It gives the values back
  under the conditions defined here.

  A key reaches the Environment Store as it stands in the tag when it is not empty,
  holds no \<open>=\<close>, no NUL byte and no newline, does not begin with \<open>#\<close> and does not
  begin with \<open>export\<close> and a space.
\<close>

definition key_ok :: "string \<Rightarrow> bool" where
  "key_ok k \<longleftrightarrow>
     k \<noteq> [] \<and> CHR ''='' \<notin> set k \<and> CHR 0x00 \<notin> set k \<and> newline \<notin> set k \<and>
     hd k \<noteq> CHR ''#'' \<and> \<not> prefix ''export '' k"

text \<open>
  The text of a value comes back when it holds no newline, no NUL byte, no quote
  character and no \<open>#\<close>, and either holds a space (then \<open>Marshal\<close> wraps it in double
  quotes) or is left as it is by \<open>TrimSpace\<close>.
\<close>

definition text_ok :: "string \<Rightarrow> bool" where
  "text_ok s \<longleftrightarrow>
     newline \<notin> set s \<and> CHR 0x00 \<notin> set s \<and>
     dquote \<notin> set s \<and> squote \<notin> set s \<and> CHR ''#'' \<notin> set s \<and>
     (CHR '' '' \<in> set s \<or> TrimSpace s = s)"

text \<open>
  The values the round trip covers. For a string, a boolean or a signed integer whose
  type has no printing method of its own: a string with such a text, every boolean,
  every integer that lies in the range of its type (as every Go value of that type
  does). For a floating point number, and for a value of a type with a printing method
  of its own, the text that \<open>%v\<close> prints decides: it must be such a text, not empty,
  and \<open>setField\<close> must make the value of it again. A field of any other kind does not
  come back (\<open>setField\<close> refuses it).
\<close>

definition printed_back :: "'f float_ops \<Rightarrow> 'f field \<Rightarrow> bool" where
  "printed_back fl f \<longleftrightarrow>
     text_ok (Sprintf_field fl f) \<and> Sprintf_field fl f \<noteq> [] \<and>
     setField fl (val f) (Sprintf_field fl f) = Inr (val f)"

definition roundtrip_value :: "'f float_ops \<Rightarrow> 'f field \<Rightarrow> bool" where
  "roundtrip_value fl f =
     (case stringer f of
        Some print \<Rightarrow> printed_back fl f
      | None \<Rightarrow>
          (case val f of
             VString s \<Rightarrow> text_ok s
           | VBool b \<Rightarrow> True
           | VInt k i \<Rightarrow> in_range (bits k) i
           | VFloat k x \<Rightarrow> printed_back fl f
           | VOther kind text \<Rightarrow> False))"

definition roundtrip_field :: "'f float_ops \<Rightarrow> 'f field \<Rightarrow> bool" where
  "roundtrip_field fl f \<longleftrightarrow> exported f \<and> key_ok (Tag_Get f) \<and> roundtrip_value fl f"

text \<open>
  \<open>fresh_field f g\<close>: \<open>g\<close> is the field of a fresh struct of the type of the struct
  that \<open>f\<close> belongs to: the same name, tag, kind and printing method, with the zero
  value of a string, boolean or integer (the value of a fresh field of another kind is
  left open).
\<close>

fun fresh_val :: "'f fval \<Rightarrow> 'f fval \<Rightarrow> bool" where
  "fresh_val (VString s) g = (g = VString [])"
| "fresh_val (VBool b) g = (g = VBool False)"
| "fresh_val (VInt k i) g = (g = VInt k 0)"
| "fresh_val (VFloat k x) g = (case g of VFloat k' y \<Rightarrow> k' = k | _ \<Rightarrow> False)"
| "fresh_val (VOther kind text) g = (case g of VOther kind' t \<Rightarrow> kind' = kind | _ \<Rightarrow> False)"

definition fresh_field :: "'f field \<Rightarrow> 'f field \<Rightarrow> bool" where
  "fresh_field f g \<longleftrightarrow>
     Name g = Name f \<and> env_tag g = env_tag f \<and> exported g = exported f \<and>
     stringer g = stringer f \<and> fresh_val (val f) (val g)"

text \<open>
  Auxiliary notions of the proofs: the bytes that start or end the encoding of a white
  space rune, the characters of a decimal integer, and a line of \<open>Marshal\<close> without its
  newline.
\<close>

definition space_byte :: "char \<Rightarrow> bool" where
  "space_byte c \<longleftrightarrow> (\<exists>e\<in>set space_runes. c = hd e \<or> c = last e)"

definition sign_or_digit :: "char \<Rightarrow> bool" where
  "sign_or_digit c \<longleftrightarrow> is_digit c \<or> c = CHR ''-''"

definition Marshal_body :: "'f float_ops \<Rightarrow> 'f field \<Rightarrow> string" where
  "Marshal_body fl f = Tag_Get f @ ''='' @ Marshal_value (Sprintf_field fl f)"

text \<open>
  The floating point operations are a parameter of every function of the struct mapper.
  The examples below are evaluated with \<open>no_floats\<close>, the operations of a program
  that has no float field: none of the examples reads them.
\<close>

definition no_floats :: "unit float_ops" where
  "no_floats =
     \<lparr>ParseFloat = (\<lambda>s. Inl (NumError ''ParseFloat'' s ErrSyntax)),
      float32 = (\<lambda>x. x),
      FormatFloat = (\<lambda>k x. ''0'')\<rparr>"

text \<open>
  For the examples with a float field: the floating point numbers that are whole
  numbers, each given by that number. \<open>%v\<close> prints a whole number of less than seven
  digits without a fraction (\<open>50\<close> for \<open>50.0\<close>), and \<open>ParseFloat\<close> reads such a text.
\<close>

definition whole_floats :: "int float_ops" where
  "whole_floats =
     \<lparr>ParseFloat =
        (\<lambda>s. case ParseInt s of
               Inl err \<Rightarrow> Inl (NumError ''ParseFloat'' s ErrSyntax)
             | Inr i \<Rightarrow> Inr i),
      float32 = (\<lambda>x. x),
      FormatFloat = (\<lambda>k x. FormatInt x)\<rparr>"

text \<open>
  The content of the file that \<open>TestCollect\<close> of \<open>src/test/dotenv_test.go\<close> writes.
\<close>

definition TestCollect_content :: string where
  "TestCollect_content = [newline] @
     ''# Comment should be ignored'' @ [newline] @
     ''TEST_VAR_1=hello'' @ [newline] @
     ''export TEST_VAR_2=world'' @ [newline] @
     [newline] @
     ''# Empty line above'' @ [newline] @
     ''TEST_VAR_3=123'' @ [newline] @
     [newline] @
     ''# Testing the internal quotes utility'' @ [newline] @
     ''TEST_QUOTED='' @ [dquote] @ ''quoted value'' @ [dquote] @ [newline] @
     ''TEST_SINGLE_QUOTED='' @ [squote] @ ''single quoted value'' @ [squote] @ [newline] @
     ''TEST_WITH_COMMENT='' @ [dquote] @ ''secret'' @ [dquote] @ '' # inline comment'' @
       [newline]"

section \<open>Facts about the string functions\<close>

lemma Cut_found: "sep \<in> set s \<Longrightarrow>
  Cut s sep = (takeWhile (\<lambda>c. c \<noteq> sep) s, tl (dropWhile (\<lambda>c. c \<noteq> sep) s), True)"
  by (induction s) auto

lemma Cut_not_found: "sep \<notin> set s \<Longrightarrow> Cut s sep = (s, [], False)"
  by (induction s) auto

lemma Cut_append: "sep \<notin> set a \<Longrightarrow> Cut (a @ sep # b) sep = (a, b, True)"
  by (induction a) auto

lemma fst_Cut: "fst (Cut s sep) = takeWhile (\<lambda>c. c \<noteq> sep) s"
proof (cases "sep \<in> set s")
  case True
  then show ?thesis by (simp add: Cut_found)
next
  case False
  then have eq: "takeWhile (\<lambda>c. c \<noteq> sep) s = s"
    by auto
  show ?thesis
    by (simp only: Cut_not_found [OF False] eq fst_conv)
qed

lemma Split_line: "sep \<notin> set l \<Longrightarrow> Split (l @ sep # rest) sep = l # Split rest sep"
  by (induction l) auto

lemma Split_lines:
  "\<forall>l\<in>set ls. sep \<notin> set l \<Longrightarrow> Split (concat (map (\<lambda>l. l @ [sep]) ls)) sep = ls @ [[]]"
  by (induction ls) (simp_all add: Split_line)

lemma trim_runes_id:
  assumes "\<forall>e\<in>set encs. \<not> prefix e s"
  shows "trim_runes encs s = s"
proof (cases s)
  case Nil
  then show ?thesis by simp
next
  case (Cons c cs)
  from assms have "find (\<lambda>e. prefix e s) encs = None"
    by (simp add: find_None_iff)
  with Cons show ?thesis
    by simp
qed

lemma TrimSpace_id:
  assumes "\<forall>e\<in>set space_runes. \<not> prefix e s \<and> \<not> suffix e s"
  shows "TrimSpace s = s"
proof -
  from assms have 1: "trim_runes space_runes s = s"
    by (intro trim_runes_id) simp
  from assms have "\<forall>e\<in>set (map rev space_runes). \<not> prefix e (rev s)"
    by (auto simp: suffix_to_prefix)
  then have "trim_runes (map rev space_runes) (rev s) = rev s"
    by (rule trim_runes_id)
  with 1 show ?thesis
    by (simp add: TrimSpace_def)
qed

lemma TrimSpace_plain:
  assumes "s \<noteq> []" and "\<not> space_byte (hd s)" and "\<not> space_byte (last s)"
  shows "TrimSpace s = s"
proof (rule TrimSpace_id, rule ballI)
  fix e
  assume e: "e \<in> set space_runes"
  then have ne: "e \<noteq> []"
    by (auto simp: space_runes_def)
  have "\<not> prefix e s"
  proof
    assume "prefix e s"
    with ne assms(1) have "hd e = hd s"
      by (auto simp: prefix_def)
    with e assms(2) show False
      by (auto simp: space_byte_def)
  qed
  moreover have "\<not> suffix e s"
  proof
    assume "suffix e s"
    with ne assms(1) have "last e = last s"
      by (auto simp: suffix_def)
    with e assms(3) show False
      by (auto simp: space_byte_def)
  qed
  ultimately show "\<not> prefix e s \<and> \<not> suffix e s"
    by simp
qed

lemma space_byte_ge:
  assumes "space_byte c"
  shows "(of_char c :: nat) \<in> {9, 10, 11, 12, 13, 32} \<or> 128 \<le> (of_char c :: nat)"
  using assms by (auto simp: space_byte_def space_runes_def)

section \<open>Facts about parsing and printing numbers\<close>

lemma digit_char_props:
  assumes "d < 10"
  shows "is_digit (digit_char d)" and "digit_val (digit_char d) = d"
proof -
  from assms have "d \<in> {0, 1, 2, 3, 4, 5, 6, 7, 8, 9}"
    by auto
  then show "is_digit (digit_char d)" and "digit_val (digit_char d) = d"
    by (auto simp: is_digit_def digit_val_def digit_char_def)
qed

lemma ParseUint_loop_snoc:
  "ParseUint_loop a (s @ [c]) =
     (case ParseUint_loop a s of Inl e \<Rightarrow> Inl e | Inr n \<Rightarrow> ParseUint_loop n [c])"
  by (induction s arbitrary: a) simp_all

lemma ParseUint_loop_digits10:
  "n \<le> maxUint64 \<Longrightarrow> ParseUint_loop 0 (digits10 n) = Inr n"
proof (induction n rule: digits10.induct)
  case (1 n)
  show ?case
  proof (cases "n < 10")
    case True
    with "1.prems" show ?thesis
      by (simp add: digits10.simps [of n] digit_char_props maxUint64_def)
  next
    case False
    from "1.prems" have le: "n div 10 \<le> maxUint64"
      by simp
    have m: "n mod 10 < 10"
      by simp
    from "1.prems" have "n div 10 < maxUint64 div 10 + 1"
      by (simp add: maxUint64_def)
    moreover have "n div 10 * 10 + n mod 10 = n"
      by simp
    ultimately have "ParseUint_loop (n div 10) [digit_char (n mod 10)] = Inr n"
      using "1.prems" by (simp add: digit_char_props [OF m])
    with False "1.IH" [OF False le] show ?thesis
      by (simp add: digits10.simps [of n] ParseUint_loop_snoc)
  qed
qed

lemma digits10_nonempty: "digits10 n \<noteq> []"
  by (simp add: digits10.simps [of n])

lemma digits10_digits: "c \<in> set (digits10 n) \<Longrightarrow> is_digit c"
proof (induction n rule: digits10.induct)
  case (1 n)
  have m: "n mod 10 < 10"
    by simp
  from 1 show ?case
    by (cases "n < 10") (auto simp: digits10.simps [of n] digit_char_props(1) [OF m] digit_char_props(1))
qed

lemma ParseInt_FormatInt:
  assumes "- (2 ^ 63) \<le> i" and "i < 2 ^ 63"
  shows "ParseInt (FormatInt i) = Inr i"
proof (cases "i < 0")
  case True
  let ?n = "nat (- i)"
  from assms True have n: "?n \<le> 2 ^ 63"
    by simp
  then have "?n \<le> maxUint64"
    by (simp add: maxUint64_def)
  then have "ParseUint (digits10 ?n) = Inr ?n"
    by (simp add: ParseUint_def digits10_nonempty ParseUint_loop_digits10)
  with True n show ?thesis
    by (simp add: ParseInt_def FormatInt_def)
next
  case False
  let ?n = "nat i"
  from assms False have n: "?n < 2 ^ 63"
    by simp
  then have "?n \<le> maxUint64"
    by (simp add: maxUint64_def)
  then have p: "ParseUint (digits10 ?n) = Inr ?n"
    by (simp add: ParseUint_def digits10_nonempty ParseUint_loop_digits10)
  have "hd (digits10 ?n) \<in> set (digits10 ?n)"
    by (simp add: digits10_nonempty)
  then have "is_digit (hd (digits10 ?n))"
    by (rule digits10_digits)
  then have "hd (digits10 ?n) \<noteq> CHR ''+''" "hd (digits10 ?n) \<noteq> CHR ''-''"
    by (auto simp: is_digit_def)
  with False n p show ?thesis
    by (simp add: ParseInt_def FormatInt_def digits10_nonempty)
qed

lemma truncate_int_in_range:
  assumes "in_range w i" and "0 < w"
  shows "truncate_int w i = i"
proof -
  from assms(2) have p: "(2::int) ^ w = 2 * 2 ^ (w - 1)"
    by (cases w) simp_all
  from assms(1) have "0 \<le> i + 2 ^ (w - 1)" "i + 2 ^ (w - 1) < 2 ^ w"
    by (simp_all add: in_range_def p)
  then have "(i + 2 ^ (w - 1)) mod 2 ^ w = i + 2 ^ (w - 1)"
    by simp
  then show ?thesis
    by (simp add: truncate_int_def)
qed

lemma in_range_bits_64:
  assumes "in_range (bits k) i"
  shows "- (2 ^ 63) \<le> i \<and> i < 2 ^ 63"
  using assms by (cases k) (simp_all add: in_range_def)

lemma ParseInt_range:
  assumes "ParseInt v = Inr i"
  shows "- (2 ^ 63) \<le> i \<and> i < 2 ^ 63"
  using assms
  by (auto simp: ParseInt_def Let_def split: if_splits sum.splits strconv_error.splits)

lemma setField_int_roundtrip:
  assumes "in_range (bits k) i"
  shows "setField fl (VInt k j) (FormatInt i) = Inr (VInt k i)"
proof -
  have "0 < bits k"
    by (cases k) simp_all
  with assms in_range_bits_64 [OF assms] show ?thesis
    by (simp add: ParseInt_FormatInt truncate_int_in_range)
qed

lemma setField_bool_roundtrip: "setField fl (VBool c) (FormatBool b) = Inr (VBool b)"
  by (simp add: ParseBool_def FormatBool_def)

lemma sign_or_digit_plain:
  assumes "sign_or_digit c"
  shows "\<not> space_byte c" and "c \<noteq> newline" and "c \<noteq> CHR 0x00" and "c \<noteq> dquote"
    and "c \<noteq> squote" and "c \<noteq> CHR ''#''" and "c \<noteq> CHR '' ''"
proof -
  from assms have r: "(of_char c :: nat) = 45 \<or> (48 \<le> (of_char c :: nat) \<and> (of_char c :: nat) \<le> 57)"
    by (auto simp: sign_or_digit_def is_digit_def)
  then show "\<not> space_byte c"
    using space_byte_ge [of c] by auto
  from r show "c \<noteq> newline" "c \<noteq> CHR 0x00" "c \<noteq> dquote" "c \<noteq> squote" "c \<noteq> CHR ''#''"
    "c \<noteq> CHR '' ''"
    by (auto simp: newline_def dquote_def squote_def)
qed

lemma FormatInt_chars: "c \<in> set (FormatInt i) \<Longrightarrow> sign_or_digit c"
  by (auto simp: FormatInt_def sign_or_digit_def dest: digits10_digits split: if_splits)

lemma FormatInt_nonempty: "FormatInt i \<noteq> []"
  by (simp add: FormatInt_def digits10_nonempty)

lemma text_ok_FormatInt: "text_ok (FormatInt i)"
proof -
  have "hd (FormatInt i) \<in> set (FormatInt i)" "last (FormatInt i) \<in> set (FormatInt i)"
    by (simp_all add: FormatInt_nonempty)
  then have "sign_or_digit (hd (FormatInt i))" "sign_or_digit (last (FormatInt i))"
    by (simp_all add: FormatInt_chars)
  then have "\<not> space_byte (hd (FormatInt i))" "\<not> space_byte (last (FormatInt i))"
    by (simp_all add: sign_or_digit_plain(1))
  then have t: "TrimSpace (FormatInt i) = FormatInt i"
    by (intro TrimSpace_plain FormatInt_nonempty)
  have n: "c \<notin> set (FormatInt i)" if "\<not> sign_or_digit c" for c
    using that FormatInt_chars by blast
  have "newline \<notin> set (FormatInt i)"
    by (rule n) (use sign_or_digit_plain(2) in blast)
  moreover have "CHR 0x00 \<notin> set (FormatInt i)"
    by (rule n) (use sign_or_digit_plain(3) in blast)
  moreover have "dquote \<notin> set (FormatInt i)"
    by (rule n) (use sign_or_digit_plain(4) in blast)
  moreover have "squote \<notin> set (FormatInt i)"
    by (rule n) (use sign_or_digit_plain(5) in blast)
  moreover have "CHR ''#'' \<notin> set (FormatInt i)"
    by (rule n) (use sign_or_digit_plain(6) in blast)
  ultimately show ?thesis
    using t by (simp add: text_ok_def)
qed

lemma text_ok_FormatBool: "text_ok (FormatBool b)"
  by (simp add: text_ok_def FormatBool_def newline_def dquote_def squote_def TrimSpace_def
      space_runes_def)

section \<open>Facts about the struct mapper\<close>

lemmas strconv_eval = ParseInt_def ParseUint_def is_digit_def digit_val_def maxUint64_def
  truncate_int_def ParseBool_def

lemmas collect_eval = Collect_files_def Collect_file_def Collect_step_def Setenv_def
  Setenv_calls_def List.map_filter_def Collect_line_part_001_def Collect_line_dotenv_go_def
  strip_export_def HasPrefix_def TrimPrefix_def TrimSpace_def space_runes_def
  dquote_def squote_def newline_def

lemma Unmarshal_fields_append:
  "Unmarshal_fields fl env (xs @ ys) =
     (case Unmarshal_fields fl env xs of
        (Some e, xs') \<Rightarrow> (Some e, xs' @ ys)
      | (None, xs') \<Rightarrow> (case Unmarshal_fields fl env ys of (r, ys') \<Rightarrow> (r, xs' @ ys')))"
  by (induction xs) (auto split: prod.splits sum.splits option.splits)

lemma Getenv_unset_empty: "Getenv (env(k := None)) = Getenv (env(k \<mapsto> []))"
  by (rule ext) (simp add: Getenv_def)

lemma Unmarshal_fields_cong:
  "Getenv env = Getenv env' \<Longrightarrow> Unmarshal_fields fl env fs = Unmarshal_fields fl env' fs"
  by (induction fs) (auto split: prod.splits sum.splits)

lemma Unmarshal_fields_Cons_skip:
  assumes "\<not> exported a \<or> Tag_Get a = [] \<or> Getenv env (Tag_Get a) = []"
    and "Unmarshal_fields fl env fs = (r, fs1)"
  shows "Unmarshal_fields fl env (a # fs) = (r, a # fs1)"
  using assms by auto

lemma Unmarshal_fields_Cons_set:
  assumes "exported a" "Tag_Get a \<noteq> []" "Getenv env (Tag_Get a) \<noteq> []"
    and "setField fl (val a) (Getenv env (Tag_Get a)) = Inr v"
    and "Unmarshal_fields fl env fs = (r, fs1)"
  shows "Unmarshal_fields fl env (a # fs) = (r, a\<lparr>val := v\<rparr> # fs1)"
  using assms by auto

lemma Unmarshal_fields_Cons_fail:
  assumes "exported a" "Tag_Get a \<noteq> []" "Getenv env (Tag_Get a) \<noteq> []"
    and "setField fl (val a) (Getenv env (Tag_Get a)) = Inl err"
  shows "Unmarshal_fields fl env (a # fs) = (Some (ErrSettingField (Name a) err), a # fs)"
  using assms by auto

text \<open>
  A failing run of the loop splits the fields at the one whose coercion failed: the
  fields before it went through a run without error, the field itself and the fields
  after it are as they were.
\<close>

lemma Unmarshal_fields_error:
  "Unmarshal_fields fl env fs = (Some e, fs') \<Longrightarrow>
   \<exists>pre f post pre' err. fs = pre @ f # post \<and> Unmarshal_fields fl env pre = (None, pre') \<and>
      exported f \<and> Tag_Get f \<noteq> [] \<and> Getenv env (Tag_Get f) \<noteq> [] \<and>
      setField fl (val f) (Getenv env (Tag_Get f)) = Inl err \<and>
      e = ErrSettingField (Name f) err \<and> fs' = pre' @ f # post"
proof (induction fs arbitrary: fs')
  case Nil
  then show ?case by simp
next
  case (Cons a fs)
  obtain r1 fs1 where r: "Unmarshal_fields fl env fs = (r1, fs1)"
    by force
  have later: ?case if step: "Unmarshal_fields fl env (a # fs) = (r1, a' # fs1)"
    and pre: "\<And>pre pre'. Unmarshal_fields fl env pre = (None, pre') \<Longrightarrow>
               Unmarshal_fields fl env (a # pre) = (None, a' # pre')" for a'
  proof -
    from step Cons.prems have "r1 = Some e" and fs': "fs' = a' # fs1"
      by simp_all
    with r have "Unmarshal_fields fl env fs = (Some e, fs1)"
      by simp
    from Cons.IH [OF this] obtain p f post p' err where
      h: "fs = p @ f # post" "Unmarshal_fields fl env p = (None, p')"
      "exported f" "Tag_Get f \<noteq> []" "Getenv env (Tag_Get f) \<noteq> []"
      "setField fl (val f) (Getenv env (Tag_Get f)) = Inl err"
      "e = ErrSettingField (Name f) err" "fs1 = p' @ f # post"
      by blast
    from h fs' pre [OF h(2)] show ?thesis
      by (intro exI [of _ "a # p"] exI [of _ f] exI [of _ post] exI [of _ "a' # p'"]
          exI [of _ err]) simp
  qed
  show ?case
  proof (cases "\<not> exported a \<or> Tag_Get a = [] \<or> Getenv env (Tag_Get a) = []")
    case True
    show ?thesis
      by (rule later [of a]) (rule Unmarshal_fields_Cons_skip [OF True] r | assumption)+
  next
    case False
    then have a: "exported a" "Tag_Get a \<noteq> []" "Getenv env (Tag_Get a) \<noteq> []"
      by simp_all
    show ?thesis
    proof (cases "setField fl (val a) (Getenv env (Tag_Get a))")
      case (Inl err)
      from Unmarshal_fields_Cons_fail [OF a Inl, of fs] Cons.prems
      have "e = ErrSettingField (Name a) err" "fs' = a # fs"
        by simp_all
      with a Inl show ?thesis
        by (intro exI [of _ "[]"] exI [of _ a] exI [of _ fs] exI [of _ "[]"] exI [of _ err])
          simp
    next
      case (Inr v)
      show ?thesis
        by (rule later [of "a\<lparr>val := v\<rparr>"])
          (rule Unmarshal_fields_Cons_set [OF a Inr] r | assumption)+
    qed
  qed
qed

text \<open>
  After a run without error every field is as it was, or holds the value that
  \<open>setField\<close> made of its variable.
\<close>

lemma Unmarshal_fields_success:
  "Unmarshal_fields fl env fs = (None, fs') \<Longrightarrow>
   list_all2 (\<lambda>g g'. g' = g \<or>
       (\<exists>v. setField fl (val g) (Getenv env (Tag_Get g)) = Inr v \<and> g' = g\<lparr>val := v\<rparr>))
     fs fs'"
proof (induction fs arbitrary: fs')
  case Nil
  then show ?case by simp
next
  case (Cons a fs)
  obtain r1 fs1 where r: "Unmarshal_fields fl env fs = (r1, fs1)"
    by force
  show ?case
  proof (cases "\<not> exported a \<or> Tag_Get a = [] \<or> Getenv env (Tag_Get a) = []")
    case True
    from Unmarshal_fields_Cons_skip [OF True r] Cons.prems
    have "r1 = None" "fs' = a # fs1"
      by simp_all
    with r Cons.IH [of fs1] show ?thesis
      by simp
  next
    case False
    then have a: "exported a" "Tag_Get a \<noteq> []" "Getenv env (Tag_Get a) \<noteq> []"
      by simp_all
    show ?thesis
    proof (cases "setField fl (val a) (Getenv env (Tag_Get a))")
      case (Inl err)
      from Unmarshal_fields_Cons_fail [OF a Inl, of fs] Cons.prems show ?thesis
        by simp
    next
      case (Inr v)
      from Unmarshal_fields_Cons_set [OF a Inr r] Cons.prems
      have "r1 = None" "fs' = a\<lparr>val := v\<rparr> # fs1"
        by simp_all
      with r Cons.IH [of fs1] Inr show ?thesis
        by simp
    qed
  qed
qed

text \<open>
  When no coercion fails, the loop returns no error and has populated every field that
  is exported, has a key and a variable that is not empty.
\<close>

lemma Unmarshal_fields_no_failure:
  assumes "\<forall>g\<in>set fs.
             \<not> exported g \<or> Tag_Get g = [] \<or> Getenv env (Tag_Get g) = [] \<or>
             (\<exists>v. setField fl (val g) (Getenv env (Tag_Get g)) = Inr v)"
  shows "Unmarshal_fields fl env fs =
           (None,
            map (\<lambda>g. if \<not> exported g \<or> Tag_Get g = [] \<or> Getenv env (Tag_Get g) = []
                      then g
                      else (case setField fl (val g) (Getenv env (Tag_Get g)) of
                              Inl e \<Rightarrow> g
                            | Inr v \<Rightarrow> g\<lparr>val := v\<rparr>))
              fs)"
  using assms by (induction fs) auto

lemma Marshal_fields_ok:
  assumes "\<forall>f\<in>set fs. Tag_Get f \<noteq> [] \<longrightarrow> exported f"
  shows "Marshal_fields fl fs =
    Ok (concat (map (Marshal_line fl) (filter (\<lambda>f. Tag_Get f \<noteq> []) fs)))"
  using assms by (induction fs) auto

lemma foldl_Collect_step_calls:
  "foldl (Collect_step body) env ls =
   foldl (\<lambda>e (k, v). snd (Setenv e k v)) env (List.map_filter body ls)"
  by (induction ls arbitrary: env)
    (auto simp: Collect_step_def List.map_filter_simps split: option.splits)

section \<open>Facts about the round trip\<close>

lemma quotes_Marshal_value:
  assumes "text_ok s"
  shows "quotes (Marshal_value s) = s"
proof (cases "CHR '' '' \<in> set s")
  case True
  from assms have "dquote \<notin> set s"
    by (simp add: text_ok_def)
  then have "Cut (s @ [dquote]) dquote = (s, [], True)"
    by (rule Cut_append)
  with True show ?thesis
    by (simp add: Marshal_value_def)
next
  case False
  with assms have t: "TrimSpace s = s" and h: "CHR ''#'' \<notin> set s"
    and q: "dquote \<notin> set s" "squote \<notin> set s"
    by (simp_all add: text_ok_def)
  show ?thesis
  proof (cases s)
    case Nil
    with False show ?thesis
      by (simp add: Marshal_value_def)
  next
    case (Cons c cs)
    with q have "c \<noteq> dquote" "c \<noteq> squote"
      by auto
    moreover from h have "fst (Cut s (CHR ''#'')) = s"
      by (simp add: Cut_not_found)
    ultimately show ?thesis
      using False t Cons by (simp add: Marshal_value_def)
  qed
qed

lemma Marshal_value_no_newline:
  "newline \<notin> set s \<Longrightarrow> newline \<notin> set (Marshal_value s)"
  by (simp add: Marshal_value_def newline_def dquote_def)

lemma prefix_before_sep:
  assumes "prefix p (k @ c # r)" and "c \<notin> set p"
  shows "prefix p k"
proof (rule ccontr)
  assume "\<not> prefix p k"
  with assms(1) obtain us where p: "p = k @ us" and us: "prefix us (c # r)"
    by (auto simp: prefix_append)
  with \<open>\<not> prefix p k\<close> have "us \<noteq> []"
    by auto
  with us have "c \<in> set us"
    by (cases us) auto
  with p assms(2) show False
    by simp
qed

lemma Collect_line_part_001_Marshal:
  assumes "key_ok k" and "text_ok s"
  shows "Collect_line_part_001 (k @ ''='' @ Marshal_value s) = Some (k, s)"
proof -
  let ?line = "k @ ''='' @ Marshal_value s"
  from assms(1) have k: "k \<noteq> []" "CHR ''='' \<notin> set k" "hd k \<noteq> CHR ''#''"
    "\<not> prefix ''export '' k"
    by (simp_all add: key_ok_def)
  have "\<not> prefix ''export '' ?line"
  proof
    assume "prefix ''export '' ?line"
    then have "prefix ''export '' (k @ CHR ''='' # Marshal_value s)"
      by simp
    then have "prefix ''export '' k"
      by (rule prefix_before_sep) simp
    with k(4) show False
      by simp
  qed
  then have 1: "strip_export ?line = ?line"
    by (simp add: strip_export_def HasPrefix_def)
  from k have 2: "?line \<noteq> []" "\<not> HasPrefix ?line ''#''"
    by (cases k; simp add: HasPrefix_def)+
  from k(2) have 3: "Cut ?line (CHR ''='') = (k, Marshal_value s, True)"
    using Cut_append [of "CHR ''=''" k "Marshal_value s"] by simp
  from 1 2 3 show ?thesis
    unfolding Collect_line_part_001_def by (simp add: quotes_Marshal_value [OF assms(2)])
qed

lemma text_ok_Sprintf_field:
  assumes "roundtrip_value fl f"
  shows "text_ok (Sprintf_field fl f)"
proof (cases "stringer f")
  case (Some print)
  with assms show ?thesis
    by (simp add: roundtrip_value_def printed_back_def)
next
  case None
  with assms show ?thesis
    by (cases "val f")
      (simp_all add: roundtrip_value_def printed_back_def Sprintf_field_def
        text_ok_FormatInt text_ok_FormatBool)
qed

lemma Marshal_line_body: "Marshal_line fl f = Marshal_body fl f @ [newline]"
  by (simp add: Marshal_line_def Marshal_body_def)

lemma Marshal_body_no_newline:
  assumes "roundtrip_field fl f"
  shows "newline \<notin> set (Marshal_body fl f)"
proof -
  from assms have "newline \<notin> set (Tag_Get f)" "text_ok (Sprintf_field fl f)"
    by (simp_all add: roundtrip_field_def key_ok_def text_ok_Sprintf_field)
  then have "newline \<notin> set (Tag_Get f)" "newline \<notin> set (Marshal_value (Sprintf_field fl f))"
    by (simp_all add: Marshal_value_no_newline text_ok_def)
  then show ?thesis
    by (simp add: Marshal_body_def newline_def)
qed

lemma Collect_step_Marshal_body:
  assumes "roundtrip_field fl f"
  shows "Collect_step Collect_line_part_001 env (Marshal_body fl f) =
         env(Tag_Get f \<mapsto> Sprintf_field fl f)"
proof -
  from assms have k: "key_ok (Tag_Get f)" and t: "text_ok (Sprintf_field fl f)"
    by (simp_all add: roundtrip_field_def text_ok_Sprintf_field)
  from k t have "Setenv env (Tag_Get f) (Sprintf_field fl f) =
      (None, env(Tag_Get f \<mapsto> Sprintf_field fl f))"
    by (simp add: Setenv_def key_ok_def text_ok_def)
  moreover have "Collect_line_part_001 (Marshal_body fl f) =
      Some (Tag_Get f, Sprintf_field fl f)"
    unfolding Marshal_body_def by (rule Collect_line_part_001_Marshal [OF k t])
  ultimately show ?thesis
    by (simp add: Collect_step_def)
qed

lemma Collect_step_empty_line: "Collect_step Collect_line_part_001 env [] = env"
  by (simp add: Collect_step_def Collect_line_part_001_def strip_export_def HasPrefix_def)

lemma foldl_Collect_step_bodies:
  "\<forall>f\<in>set ts. roundtrip_field fl f \<Longrightarrow>
   foldl (Collect_step Collect_line_part_001) env (map (Marshal_body fl) ts) =
   foldl (\<lambda>e f. e(Tag_Get f \<mapsto> Sprintf_field fl f)) env ts"
  by (induction ts arbitrary: env) (simp_all add: Collect_step_Marshal_body)

lemma foldl_upd_other:
  "key \<notin> Tag_Get ` set ts \<Longrightarrow>
   foldl (\<lambda>e f. e(Tag_Get f \<mapsto> tx f)) env ts key = env key"
  by (induction ts arbitrary: env) auto

lemma foldl_upd_distinct:
  "distinct (map Tag_Get ts) \<Longrightarrow> f \<in> set ts \<Longrightarrow>
   foldl (\<lambda>e f. e(Tag_Get f \<mapsto> tx f)) env ts (Tag_Get f) = Some (tx f)"
proof (induction ts arbitrary: env)
  case Nil
  then show ?case by simp
next
  case (Cons a ts)
  show ?case
  proof (cases "f = a")
    case True
    with Cons.prems(1) have "Tag_Get f \<notin> Tag_Get ` set ts"
      by simp
    with True show ?thesis
      using foldl_upd_other [of "Tag_Get a" ts tx "env(Tag_Get a \<mapsto> tx a)"]
      by (simp del: fun_upd_apply add: fun_upd_same)
  next
    case False
    with Cons show ?thesis
      by simp
  qed
qed

lemma Collect_file_Marshal:
  assumes ok: "\<forall>f\<in>set ts. roundtrip_field fl f"
    and dist: "distinct (map Tag_Get ts)"
    and f: "f \<in> set ts"
  shows "Collect_file Collect_line_part_001 env (concat (map (Marshal_line fl) ts)) (Tag_Get f) =
         Some (Sprintf_field fl f)"
proof -
  let ?out = "concat (map (Marshal_line fl) ts)"
  have out: "?out = concat (map (\<lambda>l. l @ [newline]) (map (Marshal_body fl) ts))"
    by (induction ts) (simp_all add: Marshal_line_body)
  from ok have "\<forall>l\<in>set (map (Marshal_body fl) ts). newline \<notin> set l"
    by (simp add: Marshal_body_no_newline)
  then have split: "Split ?out newline = map (Marshal_body fl) ts @ [[]]"
    unfolding out by (rule Split_lines)
  from f obtain a ts' where ts: "ts = a # ts'"
    by (cases ts) auto
  from ok ts have "Tag_Get a \<noteq> []"
    by (simp add: roundtrip_field_def key_ok_def)
  then have "2 \<le> length (Marshal_line fl a)"
    by (cases "Tag_Get a") (simp_all add: Marshal_line_def)
  with ts have "\<not> length ?out \<le> 1"
    by simp
  then have "Collect_file Collect_line_part_001 env ?out =
      foldl (\<lambda>e f. e(Tag_Get f \<mapsto> Sprintf_field fl f)) env ts"
    by (simp add: Collect_file_def split Collect_step_empty_line
        foldl_Collect_step_bodies [OF ok])
  with dist f show ?thesis
    by (simp add: foldl_upd_distinct)
qed

lemma setField_fresh:
  assumes "fresh_val v g"
  shows "setField fl g t = setField fl v t"
  using assms by (cases v; cases g) simp_all

lemma Sprintf_field_empty:
  assumes "roundtrip_value fl f" and "fresh_field f g" and "Sprintf_field fl f = []"
  shows "val g = val f"
proof (cases "stringer f")
  case (Some print)
  with assms(1,3) show ?thesis
    by (simp add: roundtrip_value_def printed_back_def)
next
  case None
  from assms(2) have fv: "fresh_val (val f) (val g)"
    by (simp add: fresh_field_def)
  show ?thesis
  proof (cases "val f")
    case (VString s)
    with assms(3) None fv show ?thesis
      by (simp add: Sprintf_field_def)
  next
    case (VBool b)
    with assms(3) None show ?thesis
      by (cases b) (simp_all add: Sprintf_field_def FormatBool_def)
  next
    case (VInt k i)
    with assms(3) None show ?thesis
      by (simp add: Sprintf_field_def FormatInt_nonempty)
  next
    case (VFloat k x)
    with assms(1,3) None show ?thesis
      by (simp add: roundtrip_value_def printed_back_def)
  next
    case (VOther kind t)
    with assms(1) None show ?thesis
      by (simp add: roundtrip_value_def)
  qed
qed

lemma setField_Sprintf_field:
  assumes "roundtrip_value fl f" and "fresh_field f g"
  shows "setField fl (val g) (Sprintf_field fl f) = Inr (val f)"
proof -
  from assms(2) have fv: "fresh_val (val f) (val g)"
    by (simp add: fresh_field_def)
  have "setField fl (val f) (Sprintf_field fl f) = Inr (val f)"
  proof (cases "stringer f")
    case (Some print)
    with assms(1) show ?thesis
      by (simp add: roundtrip_value_def printed_back_def)
  next
    case None
    show ?thesis
    proof (cases "val f")
      case (VString s)
      with None show ?thesis
        by (simp add: Sprintf_field_def)
    next
      case (VBool b)
      with None show ?thesis
        by (cases b) (simp_all add: Sprintf_field_def ParseBool_def FormatBool_def)
    next
      case (VInt k i)
      with assms(1) None show ?thesis
        by (simp add: Sprintf_field_def roundtrip_value_def setField_int_roundtrip
            del: setField.simps)
    next
      case (VFloat k x)
      with assms(1) None show ?thesis
        by (simp add: roundtrip_value_def printed_back_def)
    next
      case (VOther kind t)
      with assms(1) None show ?thesis
        by (simp add: roundtrip_value_def)
    qed
  qed
  with setField_fresh [OF fv] show ?thesis
    by simp
qed

lemma fresh_field_eq:
  assumes "fresh_field f g"
  shows "g\<lparr>val := val f\<rparr> = f"
  using assms by (cases f; cases g) (simp add: fresh_field_def)

lemma Unmarshal_fields_fresh:
  assumes "list_all2 fresh_field fs fresh"
    and "\<forall>f\<in>set fs. Tag_Get f \<noteq> [] \<longrightarrow>
           roundtrip_field fl f \<and> Getenv env (Tag_Get f) = Sprintf_field fl f"
  shows "Unmarshal_fields fl env fresh =
           (None, map2 (\<lambda>f g. if Tag_Get f = [] then g else f) fs fresh)"
  using assms
proof (induction rule: list_all2_induct)
  case Nil
  then show ?case by simp
next
  case (Cons f fs g gs)
  from Cons.prems have rest: "Unmarshal_fields fl env gs =
      (None, map2 (\<lambda>f g. if Tag_Get f = [] then g else f) fs gs)"
    by (intro Cons.IH) simp
  from Cons.hyps(1) have same: "Tag_Get g = Tag_Get f" "exported g = exported f"
    and fv: "fresh_val (val f) (val g)"
    by (simp_all add: fresh_field_def Tag_Get_def)
  show ?case
  proof (cases "Tag_Get f = []")
    case True
    with same have "\<not> exported g \<or> Tag_Get g = [] \<or> Getenv env (Tag_Get g) = []"
      by simp
    from Unmarshal_fields_Cons_skip [OF this rest] True show ?thesis
      by simp
  next
    case False
    with Cons.prems have rf: "roundtrip_field fl f"
      and ge: "Getenv env (Tag_Get f) = Sprintf_field fl f"
      by simp_all
    from rf have rv: "roundtrip_value fl f" and ex: "exported f"
      by (simp_all add: roundtrip_field_def)
    show ?thesis
    proof (cases "Sprintf_field fl f = []")
      case True
      with ge same have "\<not> exported g \<or> Tag_Get g = [] \<or> Getenv env (Tag_Get g) = []"
        by simp
      note step = Unmarshal_fields_Cons_skip [OF this rest]
      from Sprintf_field_empty [OF rv Cons.hyps(1) True] have "val g = val f" .
      with fresh_field_eq [OF Cons.hyps(1)] have "g = f"
        by (cases f; cases g) simp
      with step False show ?thesis
        by simp
    next
      case nonempty: False
      from setField_Sprintf_field [OF rv Cons.hyps(1)] ge same
      have set: "setField fl (val g) (Getenv env (Tag_Get g)) = Inr (val f)"
        by simp
      from ex same False nonempty ge
      have "exported g" "Tag_Get g \<noteq> []" "Getenv env (Tag_Get g) \<noteq> []"
        by simp_all
      from Unmarshal_fields_Cons_set [OF this set rest] False
        fresh_field_eq [OF Cons.hyps(1)]
      show ?thesis
        by simp
    qed
  qed
qed

lemma Getenv_Some: "env k = Some v \<Longrightarrow> k \<noteq> [] \<Longrightarrow> Getenv env k = v"
  by (simp add: Getenv_def)

section \<open>The model on the tests of the repository\<close>

text \<open>
  \<open>TestCollect\<close> expects six variables after \<open>Collect\<close> has read its file. Both
  versions of \<open>Collect\<close> give them: no comment line of the test holds a \<open>=\<close>.
\<close>

lemma TestCollect_part_001:
  "map (Getenv (Collect_part_001 [''tmp''] [''tmp'' \<mapsto> TestCollect_content] Map.empty))
     [''TEST_VAR_1'', ''TEST_VAR_2'', ''TEST_VAR_3'', ''TEST_QUOTED'', ''TEST_SINGLE_QUOTED'',
      ''TEST_WITH_COMMENT''] =
   [''hello'', ''world'', ''123'', ''quoted value'', ''single quoted value'', ''secret'']"
  by (simp add: TestCollect_content_def Collect_part_001_def collect_eval Getenv_def)

lemma TestCollect_dotenv_go:
  "map (Getenv (Collect_dotenv_go [''tmp''] [''tmp'' \<mapsto> TestCollect_content] Map.empty))
     [''TEST_VAR_1'', ''TEST_VAR_2'', ''TEST_VAR_3'', ''TEST_QUOTED'', ''TEST_SINGLE_QUOTED'',
      ''TEST_WITH_COMMENT''] =
   [''hello'', ''world'', ''123'', ''quoted value'', ''single quoted value'', ''secret'']"
  by (simp add: TestCollect_content_def Collect_dotenv_go_def collect_eval Getenv_def)

text \<open>White space runes of more than one byte are trimmed, single bytes of them are not.\<close>

lemma TrimSpace_runes:
  "TrimSpace ([CHR 0xC2, CHR 0xA0] @ '' ab '' @ [CHR 0xE3, CHR 0x80, CHR 0x80, CHR 0x0D]) = ''ab''"
  "TrimSpace ([CHR 0xA0] @ ''ab'' @ [CHR 0x85]) = [CHR 0xA0] @ ''ab'' @ [CHR 0x85]"
  by (simp_all add: TrimSpace_def space_runes_def)

section \<open>The claims about the value normalizer\<close>

text \<open>
  C4. A value that starts with a quote character which occurs again later normalizes
  to exactly the text between the opening quote and its first later occurrence: the
  content \<open>a\<close> is returned verbatim (no cut at \<open>#\<close>, no trimming) and the text \<open>b\<close>
  after the closing quote is discarded.
\<close>

theorem quotes_closed_verbatim:
  assumes "q = dquote \<or> q = squote" and "q \<notin> set a"
  shows "quotes (q # a @ q # b) = a"
  using assms by (auto simp: Cut_append)

theorem quotes_closed_verbatim_witness:
  "quotes (dquote # '' a#b '' @ dquote # '' # inline comment'') = '' a#b ''"
  using quotes_closed_verbatim [of dquote "'' a#b ''" "'' # inline comment''"]
  by (simp add: dquote_def)

text \<open>
  C5. A value that starts with a quote character which does not occur again loses
  only that leading quote; the rest is cut at its first \<open>#\<close> and then trimmed.
\<close>

theorem quotes_unterminated:
  assumes "q = dquote \<or> q = squote" and "q \<notin> set rest"
  shows "quotes (q # rest) = TrimSpace (takeWhile (\<lambda>c. c \<noteq> CHR ''#'') rest)"
  using assms by (auto simp: Cut_not_found fst_Cut)

theorem quotes_unterminated_witness:
  "quotes (squote # '' abc # def'') = ''abc''"
  using quotes_unterminated [of squote "'' abc # def''"]
  by (simp add: squote_def dquote_def TrimSpace_def space_runes_def)

section \<open>The claims about decode\<close>

text \<open>
  C1. The claim: decode rejects a text that is out of range for the type of the
  integer field, for example \<open>300\<close> for an 8-bit field. The code parses every integer
  field with \<open>strconv.ParseInt(value, 10, 64)\<close>, whatever the width of the field, and
  \<open>SetInt\<close> keeps the low bits: \<open>Unmarshal\<close> returns no error and the 8-bit field
  holds 44.
\<close>

theorem Unmarshal_int8_300_truncates:
  "setField fl (VInt KInt8 0) ''300'' = Inr (VInt KInt8 44) \<and>
   Unmarshal fl [''N'' \<mapsto> ''300'']
     (Ptr (Some (Struct
        [\<lparr>Name = ''N'', env_tag = Some ''N'', exported = True, val = VInt KInt8 0, stringer = None\<rparr>]))) =
   (None, Ptr (Some (Struct
        [\<lparr>Name = ''N'', env_tag = Some ''N'', exported = True, val = VInt KInt8 44, stringer = None\<rparr>])))"
  by (simp add: Unmarshal_def strconv_eval Getenv_def Tag_Get_def)

text \<open>
  For the kinds that are 64 bits wide the value \<open>ParseInt\<close> returns is stored as it
  is, so a text out of the range of the field is rejected with the range error of
  \<open>ParseInt\<close>: these fields behave as the claim says, the narrower ones do not.
\<close>

lemma setField_int64_exact:
  assumes "k = KInt \<or> k = KInt64"
  shows "setField fl (VInt k j) v =
           (case ParseInt v of Inl err \<Rightarrow> Inl err | Inr i \<Rightarrow> Inr (VInt k i))"
proof (cases "ParseInt v")
  case (Inl err)
  then show ?thesis by simp
next
  case (Inr i)
  from ParseInt_range [OF Inr] assms have "in_range (bits k) i"
    by (auto simp: in_range_def)
  moreover from assms have "0 < bits k"
    by auto
  ultimately have "truncate_int (bits k) i = i"
    by (rule truncate_int_in_range)
  with Inr show ?thesis
    by simp
qed

text \<open>
  C8. Let the coercion of a field \<open>f\<close> fail (\<open>f\<close> is exported, has a key, its variable
  is not empty and \<open>setField\<close> returns an error), and let no coercion fail for the
  fields \<open>pre\<close> before it. Then decode returns the error of \<open>setField\<close> under the name of
  \<open>f\<close>; every field before \<open>f\<close> that was populated holds its new value, the others of
  them are as they were; \<open>f\<close> and the fields \<open>post\<close> after it hold their prior values,
  whatever their variables are: no later field is processed and nothing is rolled back.
\<close>

theorem Unmarshal_aborts_at_failing_field:
  assumes "\<forall>g\<in>set pre.
             \<not> exported g \<or> Tag_Get g = [] \<or> Getenv env (Tag_Get g) = [] \<or>
             (\<exists>v. setField fl (val g) (Getenv env (Tag_Get g)) = Inr v)"
    and "exported f" and "Tag_Get f \<noteq> []" and "Getenv env (Tag_Get f) \<noteq> []"
    and "setField fl (val f) (Getenv env (Tag_Get f)) = Inl err"
  shows "Unmarshal fl env (Ptr (Some (Struct (pre @ f # post)))) =
           (Some (ErrSettingField (Name f) err),
            Ptr (Some (Struct
              (map (\<lambda>g. if \<not> exported g \<or> Tag_Get g = [] \<or> Getenv env (Tag_Get g) = []
                         then g
                         else (case setField fl (val g) (Getenv env (Tag_Get g)) of
                                 Inl e \<Rightarrow> g
                               | Inr v \<Rightarrow> g\<lparr>val := v\<rparr>))
                 pre @ f # post))))"
proof -
  have "Unmarshal_fields fl env (f # post) = (Some (ErrSettingField (Name f) err), f # post)"
    using assms(2-5) by (rule Unmarshal_fields_Cons_fail)
  with Unmarshal_fields_no_failure [OF assms(1)] show ?thesis
    by (simp add: Unmarshal_def Unmarshal_fields_append del: Unmarshal_fields.simps)
qed

theorem Unmarshal_aborts_at_failing_field_witness:
  "Unmarshal no_floats
     [''HOST'' \<mapsto> ''localhost'', ''PORT'' \<mapsto> ''not-a-number'', ''DEBUG'' \<mapsto> ''true'']
     (Ptr (Some (Struct
        ([\<lparr>Name = ''Host'', env_tag = Some ''HOST'', exported = True, val = VString [],
            stringer = None\<rparr>] @
         \<lparr>Name = ''Port'', env_tag = Some ''PORT'', exported = True, val = VInt KInt 0,
            stringer = None\<rparr> #
         [\<lparr>Name = ''Debug'', env_tag = Some ''DEBUG'', exported = True, val = VBool False,
            stringer = None\<rparr>])))) =
   (Some (ErrSettingField ''Port'' (NumError ''ParseInt'' ''not-a-number'' ErrSyntax)),
    Ptr (Some (Struct
        [\<lparr>Name = ''Host'', env_tag = Some ''HOST'', exported = True,
            val = VString ''localhost'', stringer = None\<rparr>,
         \<lparr>Name = ''Port'', env_tag = Some ''PORT'', exported = True, val = VInt KInt 0,
            stringer = None\<rparr>,
         \<lparr>Name = ''Debug'', env_tag = Some ''DEBUG'', exported = True, val = VBool False,
            stringer = None\<rparr>])))"
  using Unmarshal_aborts_at_failing_field [of
      "[\<lparr>Name = ''Host'', env_tag = Some ''HOST'', exported = True, val = VString [],
          stringer = None\<rparr>]"
      "[''HOST'' \<mapsto> ''localhost'', ''PORT'' \<mapsto> ''not-a-number'', ''DEBUG'' \<mapsto> ''true'']"
      no_floats
      "\<lparr>Name = ''Port'', env_tag = Some ''PORT'', exported = True, val = VInt KInt 0,
          stringer = None\<rparr>"
      "NumError ''ParseInt'' ''not-a-number'' ErrSyntax"
      "[\<lparr>Name = ''Debug'', env_tag = Some ''DEBUG'', exported = True, val = VBool False,
          stringer = None\<rparr>]"]
  by (simp add: strconv_eval Getenv_def Tag_Get_def del: Unmarshal_fields.simps)

text \<open>
  Conversely, every error that decode returns for a struct behind a pointer comes
  about in this way: the fields split at a field whose coercion failed, the fields
  before it went through without error.
\<close>

lemma Unmarshal_error_has_failing_field:
  assumes "Unmarshal fl env (Ptr (Some (Struct fs))) = (Some e, dest')"
  shows "\<exists>pre f post pre' err.
           fs = pre @ f # post \<and>
           Unmarshal_fields fl env pre = (None, pre') \<and>
           list_all2 (\<lambda>g g'. g' = g \<or>
               (\<exists>v. setField fl (val g) (Getenv env (Tag_Get g)) = Inr v \<and>
                    g' = g\<lparr>val := v\<rparr>))
             pre pre' \<and>
           setField fl (val f) (Getenv env (Tag_Get f)) = Inl err \<and>
           e = ErrSettingField (Name f) err \<and>
           dest' = Ptr (Some (Struct (pre' @ f # post)))"
proof -
  from assms obtain fs' where run: "Unmarshal_fields fl env fs = (Some e, fs')"
    and dest': "dest' = Ptr (Some (Struct fs'))"
    by (auto simp: Unmarshal_def split: prod.splits)
  from Unmarshal_fields_error [OF run] obtain pre f post pre' err where
    h: "fs = pre @ f # post" "Unmarshal_fields fl env pre = (None, pre')"
      "setField fl (val f) (Getenv env (Tag_Get f)) = Inl err"
      "e = ErrSettingField (Name f) err" "fs' = pre' @ f # post"
    by blast
  from h dest' Unmarshal_fields_success [OF h(2)] show ?thesis
    by blast
qed

text \<open>
  C9. A field whose key is not set in the Environment Store, or is set to the empty
  string, is skipped: in the result of the loop it stands unchanged between the fields
  before and after it, and the error of the call is the error of one of those, if any.
  A key that is unset and a key set to the empty string give the same result.
\<close>

theorem Unmarshal_skips_unset_or_empty:
  assumes "env (Tag_Get f) = None \<or> env (Tag_Get f) = Some []"
  shows "Unmarshal fl env (Ptr (Some (Struct (pre @ f # post)))) =
     (case Unmarshal_fields fl env pre of
        (Some e, pre') \<Rightarrow> (Some e, Ptr (Some (Struct (pre' @ f # post))))
      | (None, pre') \<Rightarrow>
          (case Unmarshal_fields fl env post of
             (r, post') \<Rightarrow> (r, Ptr (Some (Struct (pre' @ f # post')))))) \<and>
     Unmarshal fl (env(k := None)) dest = Unmarshal fl (env(k \<mapsto> [])) dest"
proof
  from assms have "Getenv env (Tag_Get f) = []"
    by (auto simp: Getenv_def)
  then show "Unmarshal fl env (Ptr (Some (Struct (pre @ f # post)))) =
     (case Unmarshal_fields fl env pre of
        (Some e, pre') \<Rightarrow> (Some e, Ptr (Some (Struct (pre' @ f # post))))
      | (None, pre') \<Rightarrow>
          (case Unmarshal_fields fl env post of
             (r, post') \<Rightarrow> (r, Ptr (Some (Struct (pre' @ f # post'))))))"
    by (simp add: Unmarshal_def Unmarshal_fields_append split: prod.splits option.splits)
  show "Unmarshal fl (env(k := None)) dest = Unmarshal fl (env(k \<mapsto> [])) dest"
    by (simp add: Unmarshal_def Unmarshal_fields_cong [OF Getenv_unset_empty]
        split: gvalue.splits option.splits)
qed

theorem Unmarshal_skips_unset_or_empty_witness:
  "Unmarshal no_floats [''HOST'' \<mapsto> ''localhost'', ''PORT'' \<mapsto> []]
     (Ptr (Some (Struct
        ([\<lparr>Name = ''Host'', env_tag = Some ''HOST'', exported = True, val = VString [], stringer = None\<rparr>] @
         \<lparr>Name = ''Port'', env_tag = Some ''PORT'', exported = True, val = VInt KInt 8080, stringer = None\<rparr> #
         [\<lparr>Name = ''Debug'', env_tag = Some ''DEBUG'', exported = True, val = VBool True, stringer = None\<rparr>])))) =
   (None, Ptr (Some (Struct
        [\<lparr>Name = ''Host'', env_tag = Some ''HOST'', exported = True, val = VString ''localhost'', stringer = None\<rparr>,
         \<lparr>Name = ''Port'', env_tag = Some ''PORT'', exported = True, val = VInt KInt 8080, stringer = None\<rparr>,
         \<lparr>Name = ''Debug'', env_tag = Some ''DEBUG'', exported = True, val = VBool True, stringer = None\<rparr>]))) \<and>
   Unmarshal no_floats ([''HOST'' \<mapsto> ''localhost'', ''PORT'' \<mapsto> []](''PORT'' := None))
     (Ptr (Some (Struct
        [\<lparr>Name = ''Port'', env_tag = Some ''PORT'', exported = True, val = VInt KInt 8080, stringer = None\<rparr>]))) =
   Unmarshal no_floats ([''HOST'' \<mapsto> ''localhost'', ''PORT'' \<mapsto> []](''PORT'' \<mapsto> []))
     (Ptr (Some (Struct
        [\<lparr>Name = ''Port'', env_tag = Some ''PORT'', exported = True, val = VInt KInt 8080, stringer = None\<rparr>])))"
  using Unmarshal_skips_unset_or_empty [of "[''HOST'' \<mapsto> ''localhost'', ''PORT'' \<mapsto> []]"
      "\<lparr>Name = ''Port'', env_tag = Some ''PORT'', exported = True, val = VInt KInt 8080, stringer = None\<rparr>"
      no_floats
      "[\<lparr>Name = ''Host'', env_tag = Some ''HOST'', exported = True, val = VString [], stringer = None\<rparr>]"
      "[\<lparr>Name = ''Debug'', env_tag = Some ''DEBUG'', exported = True, val = VBool True, stringer = None\<rparr>]"
      "''PORT''"
      "Ptr (Some (Struct
        [\<lparr>Name = ''Port'', env_tag = Some ''PORT'', exported = True, val = VInt KInt 8080, stringer = None\<rparr>]))"]
  by (simp add: Tag_Get_def Getenv_def)

text \<open>
  C10. The claim: the coercion of a boolean field accepts \<open>true\<close>, \<open>false\<close>, \<open>1\<close>,
  \<open>0\<close>, \<open>T\<close>, \<open>F\<close> whatever the case of the letters, \<open>tRuE\<close> included. The code
  rejects \<open>tRuE\<close>.
\<close>

theorem setField_bool_rejects_mixed_case:
  "setField no_floats (VBool False) ''tRuE'' = Inl (NumError ''ParseBool'' ''tRuE'' ErrSyntax)"
  by (simp add: ParseBool_def)

text \<open>
  C10, amended. The coercion of a boolean field accepts exactly the twelve texts
  \<open>1\<close>, \<open>t\<close>, \<open>T\<close>, \<open>TRUE\<close>, \<open>true\<close>, \<open>True\<close> (true) and \<open>0\<close>, \<open>f\<close>, \<open>F\<close>, \<open>FALSE\<close>,
  \<open>false\<close>, \<open>False\<close> (false); on every other text it fails with the syntax error of
  \<open>ParseBool\<close>.
\<close>

theorem setField_bool_twelve_literals:
  "setField fl (VBool b) v =
     (if v \<in> set [''1'', ''t'', ''T'', ''TRUE'', ''true'', ''True''] then Inr (VBool True)
      else if v \<in> set [''0'', ''f'', ''F'', ''FALSE'', ''false'', ''False'']
        then Inr (VBool False)
      else Inl (NumError ''ParseBool'' v ErrSyntax))"
  by (simp add: ParseBool_def)

section \<open>The claims about the file collector\<close>

text \<open>
  C2. The claim: a line that begins with \<open>#\<close> is skipped, nothing is written for it.
  \<open>Collect\<close> of \<open>src/dotenv.go\<close> tests \<open>strings.HasPrefix("#", line)\<close>, with the
  arguments exchanged, so it skips only the lines \<open>""\<close> and \<open>"#"\<close>: for the line
  \<open>#A=b\<close> it calls \<open>os.Setenv("#A", "b")\<close>, and the variable is set.
\<close>

theorem Collect_dotenv_go_writes_comment_line:
  "Collect_line_dotenv_go ''#A=b'' = Some (''#A'', ''b'') \<and>
   Collect_dotenv_go [''.env''] [''.env'' \<mapsto> ''#A=b'' @ [newline]] Map.empty ''#A'' = Some ''b''"
  by (simp add: Collect_dotenv_go_def collect_eval)

text \<open>
  \<open>Collect\<close> of \<open>src/unnamed/part_001\<close> does skip these lines: for a line that, after
  the export prefix is stripped, is empty or begins with \<open>#\<close>, no key is extracted and
  the environment is left as it is.
\<close>

theorem Collect_part_001_skips_comment_line:
  assumes "strip_export line = [] \<or> HasPrefix (strip_export line) ''#''"
  shows "Collect_line_part_001 line = None \<and>
         Collect_step Collect_line_part_001 env line = env"
  using assms by (auto simp: Collect_line_part_001_def Collect_step_def)

theorem Collect_part_001_skips_comment_line_witness:
  "Collect_line_part_001 ''export #A=b'' = None \<and>
   Collect_step Collect_line_part_001 Map.empty ''export #A=b'' = Map.empty"
  using Collect_part_001_skips_comment_line [of "''export #A=b''" Map.empty]
  by (simp add: strip_export_def HasPrefix_def TrimPrefix_def TrimSpace_def space_runes_def)

text \<open>
  C3. The claim: the two versions of \<open>Collect\<close> make the same calls of \<open>os.Setenv\<close>.
  On a file with the line \<open>#A=b\<close> the version of \<open>src/dotenv.go\<close> makes one call and
  the version of \<open>src/unnamed/part_001\<close> none, and the environments they leave differ.
\<close>

theorem Collect_versions_differ:
  "Setenv_calls Collect_line_dotenv_go [''.env''] [''.env'' \<mapsto> ''#A=b'' @ [newline]] =
     [(''#A'', ''b'')] \<and>
   Setenv_calls Collect_line_part_001 [''.env''] [''.env'' \<mapsto> ''#A=b'' @ [newline]] = [] \<and>
   Collect_dotenv_go [''.env''] [''.env'' \<mapsto> ''#A=b'' @ [newline]] Map.empty \<noteq>
   Collect_part_001 [''.env''] [''.env'' \<mapsto> ''#A=b'' @ [newline]] Map.empty"
proof -
  have "Collect_dotenv_go [''.env''] [''.env'' \<mapsto> ''#A=b'' @ [newline]] Map.empty ''#A'' =
    Some ''b''"
    by (simp add: Collect_dotenv_go_def collect_eval)
  moreover have "Collect_part_001 [''.env''] [''.env'' \<mapsto> ''#A=b'' @ [newline]] Map.empty ''#A'' =
    None"
    by (simp add: Collect_part_001_def collect_eval)
  ultimately have "Collect_dotenv_go [''.env''] [''.env'' \<mapsto> ''#A=b'' @ [newline]] Map.empty \<noteq>
    Collect_part_001 [''.env''] [''.env'' \<mapsto> ''#A=b'' @ [newline]] Map.empty"
    by (metis option.distinct(1))
  then show ?thesis
    by (simp add: collect_eval)
qed

text \<open>
  Apart from such lines the two versions do the same: on a line that, after the
  export prefix is stripped, does not begin with \<open>#\<close>, or is \<open>#\<close> alone, they
  extract the same key and value or both skip the line.
\<close>

theorem Collect_versions_agree_off_comments:
  assumes "\<not> HasPrefix (strip_export line) ''#'' \<or> strip_export line = ''#''"
  shows "Collect_line_dotenv_go line = Collect_line_part_001 line"
  using assms
  by (cases "strip_export line")
    (auto simp: Collect_line_dotenv_go_def Collect_line_part_001_def HasPrefix_def Let_def)

theorem Collect_versions_agree_off_comments_witness:
  "Collect_line_dotenv_go ''export FOO=bar # c'' = Collect_line_part_001 ''export FOO=bar # c'' \<and>
   Collect_line_part_001 ''export FOO=bar # c'' = Some (''FOO'', ''bar'')"
  using Collect_versions_agree_off_comments [of "''export FOO=bar # c''"]
  by (simp add: collect_eval)

text \<open>
  The environment that \<open>Collect\<close> leaves is the environment it starts from after the
  calls of \<open>os.Setenv\<close> listed by \<open>Setenv_calls\<close>, made in that order.
\<close>

theorem Collect_files_is_fold_of_Setenv_calls:
  "Collect_files body FilenameVariables ReadFile env =
   foldl (\<lambda>e (k, v). snd (Setenv e k v)) env (Setenv_calls body FilenameVariables ReadFile)"
proof (induction FilenameVariables arbitrary: env)
  case Nil
  then show ?case
    by (simp add: Collect_files_def Setenv_calls_def)
next
  case (Cons name names)
  have one: "(case ReadFile name of None \<Rightarrow> env | Some content \<Rightarrow> Collect_file body env content) =
    foldl (\<lambda>e (k, v). snd (Setenv e k v)) env (Setenv_calls body [name] ReadFile)"
    by (simp add: Setenv_calls_def Collect_file_def foldl_Collect_step_calls split: option.splits)
  have calls: "Setenv_calls body (name # names) ReadFile =
    Setenv_calls body [name] ReadFile @ Setenv_calls body names ReadFile"
    by (simp add: Setenv_calls_def)
  have "Collect_files body (name # names) ReadFile env =
    Collect_files body names ReadFile
      (case ReadFile name of None \<Rightarrow> env | Some content \<Rightarrow> Collect_file body env content)"
    by (simp add: Collect_files_def)
  then show ?case
    by (simp only: Cons.IH one calls foldl_append)
qed

section \<open>The claims about encode\<close>

text \<open>
  C7. The claim: the value is wrapped in double quotes exactly when it holds a white
  space character (space, tab or newline). The code tests \<open>strings.Contains(value, " ")\<close>:
  a value with a tab and no space is written without quotes.
\<close>

theorem Marshal_tab_not_quoted:
  "Marshal no_floats
     (Struct [\<lparr>Name = ''Key'', env_tag = Some ''K'', exported = True,
               val = VString (''a'' @ [CHR 0x09] @ ''b''), stringer = None\<rparr>]) =
   Ok (''K=a'' @ [CHR 0x09] @ ''b'' @ [newline])"
  by (simp add: Marshal_def Marshal_line_def Marshal_value_def Sprintf_field_def Tag_Get_def)

text \<open>
  C7, amended. For a struct, or a pointer to a struct, whose fields with a non-empty
  \<open>env\<close> key are all exported, the output is one line per field with a non-empty
  \<open>env\<close> key, in the order of declaration, and no other field appears; the line is the
  key, \<open>=\<close>, the value and a newline, and the value is wrapped in double quotes exactly
  when its text holds a space character (U+0020).
\<close>

theorem Marshal_lines:
  assumes "\<forall>f\<in>set fs. Tag_Get f \<noteq> [] \<longrightarrow> exported f"
  shows "Marshal fl (Struct fs) =
           Ok (concat (map (Marshal_line fl) (filter (\<lambda>f. Tag_Get f \<noteq> []) fs))) \<and>
         Marshal fl (Ptr (Some (Struct fs))) = Marshal fl (Struct fs) \<and>
         (\<forall>f. Marshal_line fl f =
           Tag_Get f @ ''='' @
           (if CHR '' '' \<in> set (Sprintf_field fl f)
            then [dquote] @ Sprintf_field fl f @ [dquote]
            else Sprintf_field fl f) @ [newline])"
  using Marshal_fields_ok [OF assms]
  by (simp add: Marshal_def Marshal_line_def Marshal_value_def Sprintf_field_def)

theorem Marshal_lines_witness:
  "Marshal no_floats
     (Struct [\<lparr>Name = ''Host'', env_tag = Some ''HOST'', exported = True, val = VString ''a b'', stringer = None\<rparr>,
              \<lparr>Name = ''Ignored'', env_tag = None, exported = True, val = VString ''x'', stringer = None\<rparr>,
              \<lparr>Name = ''Port'', env_tag = Some ''PORT'', exported = True, val = VInt KInt 9000, stringer = None\<rparr>,
              \<lparr>Name = ''Debug'', env_tag = Some ''DEBUG'', exported = True, val = VBool False, stringer = None\<rparr>]) =
   Ok (''HOST='' @ [dquote] @ ''a b'' @ [dquote] @ [newline] @
       ''PORT=9000'' @ [newline] @ ''DEBUG=false'' @ [newline])"
  using Marshal_lines [of
      "[\<lparr>Name = ''Host'', env_tag = Some ''HOST'', exported = True, val = VString ''a b'', stringer = None\<rparr>,
        \<lparr>Name = ''Ignored'', env_tag = None, exported = True, val = VString ''x'', stringer = None\<rparr>,
        \<lparr>Name = ''Port'', env_tag = Some ''PORT'', exported = True, val = VInt KInt 9000, stringer = None\<rparr>,
        \<lparr>Name = ''Debug'', env_tag = Some ''DEBUG'', exported = True, val = VBool False, stringer = None\<rparr>]"
      no_floats]
  by (simp add: Tag_Get_def Marshal_line_def Marshal_value_def Sprintf_field_def FormatInt_def FormatBool_def
      digits10.simps digit_char_def)

section \<open>The claim about the round trip\<close>

text \<open>
  C6. The claim: a record whose tagged fields hold scalar values without \<open>#\<close> and
  without quote characters comes back from encode, the line parser and decode with
  equal values. A string that begins with a tab holds neither, and comes back without
  the tab: \<open>Marshal\<close> quotes a value only when it holds a space, and \<open>quotes\<close> trims
  what is not quoted.
\<close>

theorem roundtrip_loses_leading_tab:
  "Marshal no_floats
     (Struct [\<lparr>Name = ''Host'', env_tag = Some ''HOST'', exported = True,
               val = VString (CHR 0x09 # ''ab''), stringer = None\<rparr>]) =
     Ok (''HOST='' @ CHR 0x09 # ''ab'' @ [newline]) \<and>
   Unmarshal no_floats
     (Collect_part_001 [''.env''] [''.env'' \<mapsto> ''HOST='' @ CHR 0x09 # ''ab'' @ [newline]]
        Map.empty)
     (Ptr (Some (Struct [\<lparr>Name = ''Host'', env_tag = Some ''HOST'', exported = True,
               val = VString [], stringer = None\<rparr>]))) =
     (None, Ptr (Some (Struct [\<lparr>Name = ''Host'', env_tag = Some ''HOST'', exported = True,
               val = VString ''ab'', stringer = None\<rparr>])))"
  by (simp add: Marshal_def Marshal_line_def Marshal_value_def Sprintf_field_def Tag_Get_def Unmarshal_def
      Getenv_def Collect_part_001_def collect_eval)

text \<open>
  Two more records that the claim covers and that do not come back: a string with a
  newline is cut at the newline, and of two fields with the same key both come back
  with the value of the second.
\<close>

lemma roundtrip_cuts_at_newline:
  "Marshal no_floats
     (Struct [\<lparr>Name = ''Host'', env_tag = Some ''HOST'', exported = True,
               val = VString (''a'' @ newline # ''b''), stringer = None\<rparr>]) =
     Ok (''HOST=a'' @ newline # ''b'' @ [newline]) \<and>
   Unmarshal no_floats
     (Collect_part_001 [''.env''] [''.env'' \<mapsto> ''HOST=a'' @ newline # ''b'' @ [newline]]
        Map.empty)
     (Ptr (Some (Struct [\<lparr>Name = ''Host'', env_tag = Some ''HOST'', exported = True,
               val = VString [], stringer = None\<rparr>]))) =
     (None, Ptr (Some (Struct [\<lparr>Name = ''Host'', env_tag = Some ''HOST'', exported = True,
               val = VString ''a'', stringer = None\<rparr>])))"
  by (simp add: Marshal_def Marshal_line_def Marshal_value_def Sprintf_field_def Tag_Get_def Unmarshal_def
      Getenv_def Collect_part_001_def collect_eval)

lemma roundtrip_same_key_twice:
  "Marshal no_floats
     (Struct [\<lparr>Name = ''A'', env_tag = Some ''K'', exported = True, val = VString ''1'', stringer = None\<rparr>,
              \<lparr>Name = ''B'', env_tag = Some ''K'', exported = True, val = VString ''2'', stringer = None\<rparr>]) =
     Ok (''K=1'' @ newline # ''K=2'' @ [newline]) \<and>
   Unmarshal no_floats
     (Collect_part_001 [''.env''] [''.env'' \<mapsto> ''K=1'' @ newline # ''K=2'' @ [newline]]
        Map.empty)
     (Ptr (Some (Struct
        [\<lparr>Name = ''A'', env_tag = Some ''K'', exported = True, val = VString [], stringer = None\<rparr>,
         \<lparr>Name = ''B'', env_tag = Some ''K'', exported = True, val = VString [], stringer = None\<rparr>]))) =
     (None, Ptr (Some (Struct
        [\<lparr>Name = ''A'', env_tag = Some ''K'', exported = True, val = VString ''2'', stringer = None\<rparr>,
         \<lparr>Name = ''B'', env_tag = Some ''K'', exported = True, val = VString ''2'', stringer = None\<rparr>])))"
  by (simp add: Marshal_def Marshal_line_def Marshal_value_def Sprintf_field_def Tag_Get_def Unmarshal_def
      Getenv_def Collect_part_001_def collect_eval)

text \<open>
  A key has to reach the Environment Store: a field whose key begins with \<open>#\<close> is
  written as a comment line, and stays empty in the fresh record.
\<close>

lemma roundtrip_loses_key_with_hash:
  "Marshal no_floats
     (Struct [\<lparr>Name = ''Host'', env_tag = Some ''#HOST'', exported = True,
               val = VString ''h'', stringer = None\<rparr>]) =
     Ok (''#HOST=h'' @ [newline]) \<and>
   Unmarshal no_floats
     (Collect_part_001 [''.env''] [''.env'' \<mapsto> ''#HOST=h'' @ [newline]] Map.empty)
     (Ptr (Some (Struct [\<lparr>Name = ''Host'', env_tag = Some ''#HOST'', exported = True,
               val = VString [], stringer = None\<rparr>]))) =
     (None, Ptr (Some (Struct [\<lparr>Name = ''Host'', env_tag = Some ''#HOST'', exported = True,
               val = VString [], stringer = None\<rparr>])))"
  by (simp add: Marshal_def Marshal_line_def Marshal_value_def Sprintf_field_def Tag_Get_def
      Unmarshal_def Getenv_def Collect_part_001_def collect_eval)

text \<open>
  A field of a named integer type that prints itself otherwise than as a decimal
  number does not come back either: a \<open>time.Duration\<close> of one and a half seconds
  prints \<open>1.5s\<close>, which \<open>ParseInt\<close> refuses.
\<close>

lemma roundtrip_fails_on_Duration:
  "Marshal no_floats
     (Struct [\<lparr>Name = ''Timeout'', env_tag = Some ''TIMEOUT'', exported = True,
               val = VInt KInt64 1500000000, stringer = Some (\<lambda>v. ''1.5s'')\<rparr>]) =
     Ok (''TIMEOUT=1.5s'' @ [newline]) \<and>
   Unmarshal no_floats
     (Collect_part_001 [''.env''] [''.env'' \<mapsto> ''TIMEOUT=1.5s'' @ [newline]] Map.empty)
     (Ptr (Some (Struct [\<lparr>Name = ''Timeout'', env_tag = Some ''TIMEOUT'', exported = True,
               val = VInt KInt64 0, stringer = Some (\<lambda>v. ''1.5s'')\<rparr>]))) =
     (Some (ErrSettingField ''Timeout'' (NumError ''ParseInt'' ''1.5s'' ErrSyntax)),
      Ptr (Some (Struct [\<lparr>Name = ''Timeout'', env_tag = Some ''TIMEOUT'', exported = True,
               val = VInt KInt64 0, stringer = Some (\<lambda>v. ''1.5s'')\<rparr>])))"
  by (simp add: Marshal_def Marshal_line_def Marshal_value_def Sprintf_field_def Tag_Get_def
      Unmarshal_def Getenv_def Collect_part_001_def collect_eval strconv_eval)

text \<open>
  C6, amended. Take a record in which every field with a non-empty \<open>env\<close> key is
  exported, has a key that \<open>key_ok\<close> admits and a value that \<open>roundtrip_value\<close> admits,
  and in which no key occurs twice. The values admitted are: a string without newline,
  NUL, quote character and \<open>#\<close> that holds a space or has no white space at its ends;
  a boolean; a signed integer; and a floating point number or a value of a type with a
  printing method of its own whose printed text is such a string, is not empty and is
  made into the same value again by the coercion of the field. Then \<open>Marshal\<close> returns a
  text, and when \<open>Collect\<close> of \<open>src/unnamed/part_001\<close> reads that text from a file into
  any environment, \<open>Unmarshal\<close> into a fresh record of the same type returns no error
  and leaves every field with a key equal to the original field; the other fields stay
  as they are in the fresh record.
\<close>

theorem Marshal_Collect_Unmarshal_roundtrip:
  assumes ok: "\<forall>f\<in>set fs. Tag_Get f \<noteq> [] \<longrightarrow> roundtrip_field fl f"
    and dist: "distinct (map Tag_Get (filter (\<lambda>f. Tag_Get f \<noteq> []) fs))"
    and fresh: "list_all2 fresh_field fs fresh"
  shows "(\<exists>out. Marshal fl (Struct fs) = Ok out) \<and>
         (\<forall>out ReadFile name env.
            Marshal fl (Struct fs) = Ok out \<and> ReadFile name = Some out \<longrightarrow>
            Unmarshal fl (Collect_part_001 [name] ReadFile env) (Ptr (Some (Struct fresh))) =
              (None, Ptr (Some (Struct
                 (map2 (\<lambda>f g. if Tag_Get f = [] then g else f) fs fresh)))))"
proof -
  let ?ts = "filter (\<lambda>f. Tag_Get f \<noteq> []) fs"
  let ?out = "concat (map (Marshal_line fl) ?ts)"
  from ok have "\<forall>f\<in>set fs. Tag_Get f \<noteq> [] \<longrightarrow> exported f"
    by (simp add: roundtrip_field_def)
  then have m: "Marshal fl (Struct fs) = Ok ?out"
    by (simp add: Marshal_def Marshal_fields_ok)
  have "Unmarshal fl (Collect_part_001 [name] ReadFile env) (Ptr (Some (Struct fresh))) =
      (None, Ptr (Some (Struct (map2 (\<lambda>f g. if Tag_Get f = [] then g else f) fs fresh))))"
    if rd: "ReadFile name = Some ?out" for ReadFile :: "string \<Rightarrow> string option" and name env
  proof -
    let ?env = "Collect_part_001 [name] ReadFile env"
    from rd have env: "?env = Collect_file Collect_line_part_001 env ?out"
      by (simp add: Collect_part_001_def Collect_files_def)
    from ok have tok: "\<forall>f\<in>set ?ts. roundtrip_field fl f"
      by simp
    have "roundtrip_field fl f \<and> Getenv ?env (Tag_Get f) = Sprintf_field fl f"
      if f: "f \<in> set fs" and t: "Tag_Get f \<noteq> []" for f
    proof -
      from f t have "f \<in> set ?ts"
        by simp
      from Collect_file_Marshal [OF tok dist this, of env] env
      have "?env (Tag_Get f) = Some (Sprintf_field fl f)"
        by simp
      with t ok f show ?thesis
        by (simp add: Getenv_Some)
    qed
    then have "\<forall>f\<in>set fs. Tag_Get f \<noteq> [] \<longrightarrow>
        roundtrip_field fl f \<and> Getenv ?env (Tag_Get f) = Sprintf_field fl f"
      by blast
    from Unmarshal_fields_fresh [OF fresh this] show ?thesis
      by (simp add: Unmarshal_def)
  qed
  with m show ?thesis
    by auto
qed

theorem Marshal_Collect_Unmarshal_roundtrip_witness:
  "Unmarshal whole_floats
     (Collect_part_001 [''.env'']
        [''.env'' \<mapsto> ''HOST='' @ [dquote] @ ''my host'' @ [dquote] @ [newline] @
        ''PORT=8080'' @ [newline] @ ''LEVEL=-5'' @ [newline] @
        ''DEBUG=true'' @ [newline] @ ''RATE=50'' @ [newline]]
        [''PORT'' \<mapsto> ''1''])
     (Ptr (Some (Struct
        [\<lparr>Name = ''Host'', env_tag = Some ''HOST'', exported = True, val = VString [],
           stringer = None\<rparr>,
         \<lparr>Name = ''Port'', env_tag = Some ''PORT'', exported = True, val = VInt KInt 0,
           stringer = None\<rparr>,
         \<lparr>Name = ''Ignored'', env_tag = None, exported = True, val = VString [],
           stringer = None\<rparr>,
         \<lparr>Name = ''Level'', env_tag = Some ''LEVEL'', exported = True, val = VInt KInt8 0,
           stringer = Some (\<lambda>v. case v of VInt k i \<Rightarrow> FormatInt i | _ \<Rightarrow> [])\<rparr>,
         \<lparr>Name = ''Debug'', env_tag = Some ''DEBUG'', exported = True, val = VBool False,
           stringer = None\<rparr>,
         \<lparr>Name = ''Rate'', env_tag = Some ''RATE'', exported = True, val = VFloat KFloat64 0,
           stringer = None\<rparr>]))) =
   (None, Ptr (Some (Struct
        [\<lparr>Name = ''Host'', env_tag = Some ''HOST'', exported = True, val = VString ''my host'',
           stringer = None\<rparr>,
         \<lparr>Name = ''Port'', env_tag = Some ''PORT'', exported = True, val = VInt KInt 8080,
           stringer = None\<rparr>,
         \<lparr>Name = ''Ignored'', env_tag = None, exported = True, val = VString [],
           stringer = None\<rparr>,
         \<lparr>Name = ''Level'', env_tag = Some ''LEVEL'', exported = True, val = VInt KInt8 (- 5),
           stringer = Some (\<lambda>v. case v of VInt k i \<Rightarrow> FormatInt i | _ \<Rightarrow> [])\<rparr>,
         \<lparr>Name = ''Debug'', env_tag = Some ''DEBUG'', exported = True, val = VBool True,
           stringer = None\<rparr>,
         \<lparr>Name = ''Rate'', env_tag = Some ''RATE'', exported = True, val = VFloat KFloat64 50,
           stringer = None\<rparr>])))"
proof -
  let ?fs = "[\<lparr>Name = ''Host'', env_tag = Some ''HOST'', exported = True, val = VString ''my host'',
           stringer = None\<rparr>,
         \<lparr>Name = ''Port'', env_tag = Some ''PORT'', exported = True, val = VInt KInt 8080,
           stringer = None\<rparr>,
         \<lparr>Name = ''Ignored'', env_tag = None, exported = True, val = VString ''not written'',
           stringer = None\<rparr>,
         \<lparr>Name = ''Level'', env_tag = Some ''LEVEL'', exported = True, val = VInt KInt8 (- 5),
           stringer = Some (\<lambda>v. case v of VInt k i \<Rightarrow> FormatInt i | _ \<Rightarrow> [])\<rparr>,
         \<lparr>Name = ''Debug'', env_tag = Some ''DEBUG'', exported = True, val = VBool True,
           stringer = None\<rparr>,
         \<lparr>Name = ''Rate'', env_tag = Some ''RATE'', exported = True, val = VFloat KFloat64 50,
           stringer = None\<rparr>]"
  let ?fresh = "[\<lparr>Name = ''Host'', env_tag = Some ''HOST'', exported = True, val = VString [],
           stringer = None\<rparr>,
         \<lparr>Name = ''Port'', env_tag = Some ''PORT'', exported = True, val = VInt KInt 0,
           stringer = None\<rparr>,
         \<lparr>Name = ''Ignored'', env_tag = None, exported = True, val = VString [],
           stringer = None\<rparr>,
         \<lparr>Name = ''Level'', env_tag = Some ''LEVEL'', exported = True, val = VInt KInt8 0,
           stringer = Some (\<lambda>v. case v of VInt k i \<Rightarrow> FormatInt i | _ \<Rightarrow> [])\<rparr>,
         \<lparr>Name = ''Debug'', env_tag = Some ''DEBUG'', exported = True, val = VBool False,
           stringer = None\<rparr>,
         \<lparr>Name = ''Rate'', env_tag = Some ''RATE'', exported = True, val = VFloat KFloat64 0,
           stringer = None\<rparr>]"
  let ?out = "''HOST='' @ [dquote] @ ''my host'' @ [dquote] @ [newline] @
        ''PORT=8080'' @ [newline] @ ''LEVEL=-5'' @ [newline] @
        ''DEBUG=true'' @ [newline] @ ''RATE=50'' @ [newline]"
  have ok: "\<forall>f\<in>set ?fs. Tag_Get f \<noteq> [] \<longrightarrow> roundtrip_field whole_floats f"
    by (simp add: Tag_Get_def roundtrip_field_def roundtrip_value_def printed_back_def
        Sprintf_field_def key_ok_def text_ok_def in_range_def newline_def dquote_def squote_def
        whole_floats_def FormatInt_def digits10.simps digit_char_def strconv_eval
        TrimSpace_def space_runes_def)
  have dist: "distinct (map Tag_Get (filter (\<lambda>f. Tag_Get f \<noteq> []) ?fs))"
    by (simp add: Tag_Get_def)
  have fresh: "list_all2 fresh_field ?fs ?fresh"
    by (simp add: fresh_field_def)
  have m: "Marshal whole_floats (Struct ?fs) = Ok ?out"
    by (simp add: Marshal_def Marshal_line_def Marshal_value_def Sprintf_field_def Tag_Get_def
        FormatInt_def FormatBool_def digits10.simps digit_char_def whole_floats_def)
  from Marshal_Collect_Unmarshal_roundtrip [OF ok dist fresh] m
  have "Unmarshal whole_floats
      (Collect_part_001 [''.env''] [''.env'' \<mapsto> ?out] [''PORT'' \<mapsto> ''1''])
      (Ptr (Some (Struct ?fresh))) =
    (None, Ptr (Some (Struct (map2 (\<lambda>f g. if Tag_Get f = [] then g else f) ?fs ?fresh))))"
    by (elim conjE allE [of _ "?out"] allE [of _ "[''.env'' \<mapsto> ?out]"] allE [of _ "''.env''"]
        allE [of _ "[''PORT'' \<mapsto> ''1'']"]) simp
  then show ?thesis
    by (simp add: Tag_Get_def)
qed

end
